theory Spec2Isabelle
  imports Main
begin

section \<open>Data model\<close>

text \<open>
  The program keeps its board in global variables. A position is a \<open>Vec2\<close> of two
  numbers; a cell is one of the objects \<open>new Open()\<close>, \<open>new Close()\<close>,
  \<open>new Mine(id)\<close>. JavaScript objects can carry any property, and the program
  compares ids with \<open>==\<close> and \<open>!=\<close> against \<open>null\<close>, so the value of the \<open>id\<close>
  property is modelled as a \<open>jsval\<close>: \<open>Undefined\<close> (property absent), \<open>Null\<close> or a
  number.
\<close>

datatype Vec2 = Vec2 (vx: int) (vy: int)

datatype jsval = Undefined | Null | Num int

datatype cellClass = Open | Close | Mine

record cell =
  kind :: cellClass
  cid :: jsval
  flagged :: bool

definition newOpen :: cell where
  "newOpen = \<lparr>kind = Open, cid = Undefined, flagged = False\<rparr>"

definition newClose :: cell where
  "newClose = \<lparr>kind = Close, cid = Undefined, flagged = False\<rparr>"

definition newMine :: "jsval \<Rightarrow> cell" where
  "newMine i = \<lparr>kind = Mine, cid = i, flagged = False\<rparr>"

text \<open>JavaScript's loose equality \<open>a == b\<close> on the values an id can take.\<close>

fun jseq :: "jsval \<Rightarrow> jsval \<Rightarrow> bool" where
  "jseq (Num a) b = (case b of Num c \<Rightarrow> a = c | Null \<Rightarrow> False | Undefined \<Rightarrow> False)"
| "jseq Null b = (case b of Num c \<Rightarrow> False | Null \<Rightarrow> True | Undefined \<Rightarrow> True)"
| "jseq Undefined b = (case b of Num c \<Rightarrow> False | Null \<Rightarrow> True | Undefined \<Rightarrow> True)"

subsection \<open>Vec2 methods and the direction constants\<close>

definition add :: "Vec2 \<Rightarrow> Vec2 \<Rightarrow> Vec2" where
  "add a b = Vec2 (vx a + vx b) (vy a + vy b)"

definition subtract :: "Vec2 \<Rightarrow> Vec2 \<Rightarrow> Vec2" where
  "subtract a b = Vec2 (vx a - vx b) (vy a - vy b)"

definition negate :: "Vec2 \<Rightarrow> Vec2" where
  "negate a = Vec2 (- vx a) (- vy a)"

definition clockwise :: "Vec2 \<Rightarrow> Vec2" where
  "clockwise a = Vec2 (vy a) (- vx a)"

definition adjacentTo :: "Vec2 \<Rightarrow> Vec2 \<Rightarrow> bool" where
  "adjacentTo a other =
     (let delta = subtract a other
      in (-1 \<le> vx delta \<and> vx delta \<le> 1) \<and> (-1 \<le> vy delta \<and> vy delta \<le> 1))"

definition NORTH :: Vec2 where "NORTH = Vec2 0 (-1)"
definition NORTHEAST :: Vec2 where "NORTHEAST = Vec2 1 (-1)"
definition EAST :: Vec2 where "EAST = Vec2 1 0"
definition SOUTHEAST :: Vec2 where "SOUTHEAST = Vec2 1 1"
definition SOUTH :: Vec2 where "SOUTH = Vec2 0 1"
definition SOUTHWEST :: Vec2 where "SOUTHWEST = Vec2 (-1) 1"
definition WEST :: Vec2 where "WEST = Vec2 (-1) 0"
definition NORTHWEST :: Vec2 where "NORTHWEST = Vec2 (-1) (-1)"

definition ALL_DIRS :: "Vec2 list" where
  "ALL_DIRS = [NORTH, NORTHEAST, EAST, SOUTHEAST, SOUTH, SOUTHWEST, WEST, NORTHWEST]"

definition ORTHO_DIRS :: "Vec2 list" where
  "ORTHO_DIRS = [NORTH, EAST, SOUTH, WEST]"

definition inDirs :: "Vec2 \<Rightarrow> Vec2 list \<Rightarrow> Vec2 list" where
  "inDirs source directions = map (\<lambda>dir. add source dir) directions"

subsection \<open>The grid\<close>

text \<open>
  \<open>grid\<close> is a flat array read at \<open>pos.x + pos.y * dimension\<close>. Reading a JavaScript
  array outside its range gives \<open>undefined\<close>, here \<open>None\<close>. \<open>isMine\<close> does not check
  the bounds, so a position left or right of the field reads the cell the index wraps
  to; \<open>undefined instanceof Mine\<close> is false.
\<close>

definition isOutsideField :: "nat \<Rightarrow> Vec2 \<Rightarrow> bool" where
  "isOutsideField d pos =
     (vx pos < 0 \<or> int d \<le> vx pos \<or> vy pos < 0 \<or> int d \<le> vy pos)"

definition getState :: "nat \<Rightarrow> cell list \<Rightarrow> Vec2 \<Rightarrow> cell option" where
  "getState d g pos =
     (let i = vx pos + vy pos * int d
      in if 0 \<le> i \<and> i < int (length g) then Some (g ! nat i) else None)"

text \<open>
  \<open>setState\<close> is only ever called with a position of the field, whose index is in
  range once the grid holds \<open>dimension * dimension\<close> cells (lemma \<open>getState_field\<close>
  below); outside the range the model leaves the grid as it is.
\<close>

definition setState :: "nat \<Rightarrow> cell list \<Rightarrow> Vec2 \<Rightarrow> cell \<Rightarrow> cell list" where
  "setState d g pos newState =
     (let i = vx pos + vy pos * int d
      in if 0 \<le> i \<and> i < int (length g) then g[nat i := newState] else g)"

text \<open>\<open>getState(pos).id = v\<close>: the object in the grid is mutated in place.\<close>

definition setId :: "nat \<Rightarrow> cell list \<Rightarrow> Vec2 \<Rightarrow> jsval \<Rightarrow> cell list" where
  "setId d g pos v =
     (case getState d g pos of
        None \<Rightarrow> g
      | Some c \<Rightarrow> setState d g pos (c\<lparr>cid := v\<rparr>))"

definition isMine :: "nat \<Rightarrow> cell list \<Rightarrow> Vec2 \<Rightarrow> bool" where
  "isMine d g pos = (case getState d g pos of None \<Rightarrow> False | Some c \<Rightarrow> kind c = Mine)"

definition isEmpty :: "nat \<Rightarrow> cell list \<Rightarrow> Vec2 \<Rightarrow> bool" where
  "isEmpty d g pos =
     (\<not> isOutsideField d pos
      \<and> (case getState d g pos of None \<Rightarrow> False | Some c \<Rightarrow> kind c = Close))"

text \<open>
  \<open>getId\<close> reads \<open>getState(pos).id\<close> for a position of the field. With a grid of
  \<open>dimension * dimension\<close> cells the cell is always there; the model answers
  \<open>Undefined\<close> for the case that cannot arise.
\<close>

definition getId :: "nat \<Rightarrow> cell list \<Rightarrow> Vec2 \<Rightarrow> jsval" where
  "getId d g pos =
     (if isOutsideField d pos then Num 0
      else (case getState d g pos of None \<Rightarrow> Undefined | Some c \<Rightarrow> cid c))"

definition hasId :: "nat \<Rightarrow> cell list \<Rightarrow> jsval \<Rightarrow> Vec2 \<Rightarrow> bool" where
  "hasId d g i pos = (\<not> isEmpty d g pos \<and> jseq (getId d g pos) i)"

definition getCommonIdInDirs :: "nat \<Rightarrow> cell list \<Rightarrow> Vec2 \<Rightarrow> Vec2 \<Rightarrow> Vec2 \<Rightarrow> jsval" where
  "getCommonIdInDirs d g pos dir1 dir2 =
     (let neighbor1 = add pos dir1; neighbor2 = add pos dir2
      in if \<not> isEmpty d g neighbor1 \<and> \<not> isEmpty d g neighbor2
            \<and> jseq (getId d g neighbor1) (getId d g neighbor2)
         then getId d g neighbor1
         else Null)"

definition neighbors :: "nat \<Rightarrow> Vec2 \<Rightarrow> Vec2 list" where
  "neighbors d pos = filter (\<lambda>p. \<not> isOutsideField d p) (inDirs pos ALL_DIRS)"

definition isSurrounded :: "nat \<Rightarrow> cell list \<Rightarrow> Vec2 \<Rightarrow> bool" where
  "isSurrounded d g pos = list_all (isMine d g) (neighbors d pos)"

subsection \<open>The island test\<close>

definition willCreateIsland :: "nat \<Rightarrow> cell list \<Rightarrow> Vec2 \<Rightarrow> bool" where
  "willCreateIsland d g pos =
     (let i = getCommonIdInDirs d g pos NORTH SOUTH in
      if \<not> jseq i Null then
        (if list_all (hasId d g i) (inDirs pos [WEST, NORTHWEST, SOUTHWEST]) then
           (if hasId d g i (add pos EAST)
            then \<not> list_ex (hasId d g i) (inDirs pos [SOUTHEAST, NORTHEAST])
            else False)
         else if list_all (hasId d g i) (inDirs pos [EAST, NORTHEAST, SOUTHEAST]) then
           (if hasId d g i (add pos WEST)
            then list_ex (hasId d g i) (inDirs pos [SOUTHWEST, NORTHWEST])
            else False)
         else True)
      else
       (let i = getCommonIdInDirs d g pos WEST EAST in
        if \<not> jseq i Null then
          (if list_all (hasId d g i) (inDirs pos [NORTH, NORTHWEST, NORTHEAST]) then
             (if hasId d g i (add pos SOUTH)
              then \<not> list_ex (hasId d g i) (inDirs pos [SOUTHWEST, SOUTHEAST])
              else False)
           else if list_all (hasId d g i) (inDirs pos [SOUTH, SOUTHWEST, SOUTHEAST]) then
             (if hasId d g i (add pos NORTH)
              then list_ex (hasId d g i) (inDirs pos [NORTHWEST, NORTHEAST])
              else False)
           else True)
        else
          list_ex (\<lambda>dir.
              let clockwiseDir = clockwise dir;
                  i = getCommonIdInDirs d g pos dir clockwiseDir
              in \<not> jseq i Null \<and> hasId d g i (add (add pos dir) clockwiseDir))
            ORTHO_DIRS))"

subsection \<open>Cluster ids\<close>

text \<open>
  \<open>updateId\<close> is a recursive flood over orthogonally adjacent mines. The first
  argument of the model is the recursion depth still allowed: \<open>None\<close> means the depth
  ran out. Lemma \<open>updateId_total\<close> shows that a depth of one more than the number of
  cells is always enough, which is the depth every caller passes.
\<close>

fun updateId ::
  "nat \<Rightarrow> nat \<Rightarrow> cell list \<Rightarrow> Vec2 \<Rightarrow> int \<Rightarrow> Vec2 \<Rightarrow> cell list option" where
  "updateId 0 d g pos newId fromDirection = None"
| "updateId (Suc k) d g pos newId fromDirection =
     (if \<not> isOutsideField d pos \<and> \<not> jseq (getId d g pos) (Num newId) then
        (let g1 = setId d g pos (Num newId);
             mineDirs = filter (\<lambda>dir. isMine d g1 (add pos dir)) ORTHO_DIRS
         in fold (\<lambda>dir acc.
                    case acc of
                      None \<Rightarrow> None
                    | Some g2 \<Rightarrow>
                        if dir \<noteq> fromDirection
                        then updateId k d g2 (add pos dir) newId (negate dir)
                        else Some g2)
              mineDirs (Some g1))
      else Some g)"

section \<open>Game state and mine generation\<close>

text \<open>
  The global variables the modelled functions read or write. The timer's variables and
  everything drawn on the canvas are left out. \<open>winCalls\<close> counts the calls of \<open>win()\<close>:
  it stands for the win signal (the switch to the win screen).
\<close>

record game =
  dimension :: nat
  totalMines :: nat
  grid :: "cell list"
  minables :: "Vec2 list"
  currentId :: int
  hasGenMines :: bool
  isLost :: bool
  numRemainingFlags :: int
  remainingClearCells :: int
  stopTimer :: bool
  winCalls :: nat

text \<open>
  The random source is a list of draws, one per call of \<open>randomNumber(0, n - 1)\<close>.
  \<open>NoMinableSpaces\<close> is the error the program throws. \<open>DrawOutOfRange\<close> marks a list of
  draws that is used up or holds an index outside \<open>0 .. n - 1\<close>, which the random source
  never returns. \<open>OutOfFuel\<close> marks a recursion that ran out of depth, and \<open>TypeError\<close> a
  property read of \<open>undefined\<close>. Generation on a board that is all \<open>Close\<close> fails with
  one of the first two only (lemma \<open>populateMines_errors\<close>).
\<close>

datatype error = NoMinableSpaces | DrawOutOfRange | OutOfFuel | TypeError

definition removeItem :: "'a list \<Rightarrow> nat \<Rightarrow> 'a list" where
  "removeItem xs i = take i xs @ drop (Suc i) xs"

definition randomMinablePos :: "game \<Rightarrow> nat list \<Rightarrow> error + (Vec2 \<times> game \<times> nat list)" where
  "randomMinablePos s rs =
     (if length (minables s) = 0 then Inl NoMinableSpaces
      else (case rs of
              [] \<Rightarrow> Inl DrawOutOfRange
            | index # rs' \<Rightarrow>
                if index < length (minables s)
                then Inr (minables s ! index,
                          s\<lparr>minables := removeItem (minables s) index\<rparr>, rs')
                else Inl DrawOutOfRange))"

text \<open>The condition of the \<open>while\<close> loop of \<open>generateMine\<close>.\<close>

definition rejected :: "nat \<Rightarrow> cell list \<Rightarrow> Vec2 \<Rightarrow> bool" where
  "rejected d g pos =
     (isSurrounded d g pos
      \<or> list_ex (isSurrounded d g) (neighbors d pos)
      \<or> willCreateIsland d g pos)"

text \<open>
  The \<open>while\<close> loop of \<open>generateMine\<close>, entered with the candidate \<open>pos\<close> already set to
  \<open>new Mine(null)\<close>. Every round takes one position out of \<open>minables\<close>, which is why
  the loop ends.
\<close>

function retryLoop :: "game \<Rightarrow> Vec2 \<Rightarrow> nat list \<Rightarrow> error + (Vec2 \<times> game \<times> nat list)" where
  "retryLoop s pos rs =
     (if rejected (dimension s) (grid s) pos then
        (case randomMinablePos
                (s\<lparr>grid := setState (dimension s) (grid s) pos newClose\<rparr>) rs of
           Inl e \<Rightarrow> Inl e
         | Inr (pos', s', rs') \<Rightarrow>
             retryLoop
               (s'\<lparr>grid := setState (dimension s') (grid s') pos' (newMine Null)\<rparr>)
               pos' rs')
      else Inr (pos, s, rs))"
  by pat_completeness auto
termination
  by (relation "measure (\<lambda>(s, pos, rs). length (minables s))")
     (auto simp: randomMinablePos_def removeItem_def split: if_splits list.splits)

declare retryLoop.simps [simp del]

text \<open>Lines 676 to 687 of \<open>generateMine\<close>: draw, place, retry until accepted.\<close>

definition acceptMine :: "game \<Rightarrow> nat list \<Rightarrow> error + (Vec2 \<times> game \<times> nat list)" where
  "acceptMine s rs =
     (case randomMinablePos s rs of
        Inl e \<Rightarrow> Inl e
      | Inr (pos, s', rs') \<Rightarrow>
          retryLoop (s'\<lparr>grid := setState (dimension s') (grid s') pos (newMine Null)\<rparr>)
            pos rs')"

text \<open>\<open>Math.min(id, neighborId)\<close>, reached only when \<open>neighborId != null\<close>.\<close>

fun minId :: "int \<Rightarrow> jsval \<Rightarrow> int" where
  "minId i (Num n) = min i n"
| "minId i _ = i"

text \<open>Lines 689 to 710 of \<open>generateMine\<close>: the group id of the accepted mine.\<close>

definition assignGroupId :: "game \<Rightarrow> Vec2 \<Rightarrow> error + game" where
  "assignGroupId s pos =
     (let d = dimension s; g = grid s;
          mineDirs = filter (\<lambda>dir. \<not> isEmpty d g (add pos dir)) ORTHO_DIRS
      in if length mineDirs > 0 then
           (let i = fold (\<lambda>dir i.
                        let neighborId = getId d g (add pos dir)
                        in if \<not> jseq neighborId Null then minId i neighborId else i)
                      mineDirs (currentId s);
                g1 = setId d g pos (Num i)
            in case fold (\<lambda>dir acc.
                        case acc of
                          None \<Rightarrow> None
                        | Some g2 \<Rightarrow>
                            updateId (Suc (length g)) d g2 (add pos dir) i (negate dir))
                      mineDirs (Some g1) of
                 None \<Rightarrow> Inl OutOfFuel
               | Some g3 \<Rightarrow> Inr (s\<lparr>grid := g3, currentId := currentId s + 1\<rparr>))
         else Inr s)"

definition generateMine :: "game \<Rightarrow> nat list \<Rightarrow> error + (game \<times> nat list)" where
  "generateMine s rs =
     (case acceptMine s rs of
        Inl e \<Rightarrow> Inl e
      | Inr (pos, s', rs') \<Rightarrow>
          (case assignGroupId s' pos of
             Inl e \<Rightarrow> Inl e
           | Inr s'' \<Rightarrow> Inr (s'', rs')))"

text \<open>The pool of \<open>populateMines\<close>: row by row, every position not adjacent to the click.\<close>

definition buildMinables :: "nat \<Rightarrow> Vec2 \<Rightarrow> Vec2 list" where
  "buildMinables d clickPos =
     concat (map (\<lambda>y. filter (\<lambda>pos. \<not> adjacentTo clickPos pos)
                         (map (\<lambda>x. Vec2 (int x) (int y)) [0..<d]))
                 [0..<d])"

text \<open>The \<open>for\<close> loop of \<open>populateMines\<close>: \<open>n\<close> calls of \<open>generateMine\<close>.\<close>

fun generateMines :: "nat \<Rightarrow> game \<Rightarrow> nat list \<Rightarrow> error + (game \<times> nat list)" where
  "generateMines 0 s rs = Inr (s, rs)"
| "generateMines (Suc n) s rs =
     (case generateMine s rs of
        Inl e \<Rightarrow> Inl e
      | Inr (s', rs') \<Rightarrow> generateMines n s' rs')"

definition populateMines :: "game \<Rightarrow> Vec2 \<Rightarrow> nat list \<Rightarrow> error + (game \<times> nat list)" where
  "populateMines s clickPos rs =
     (case generateMines (totalMines s)
             (s\<lparr>minables := buildMinables (dimension s) clickPos\<rparr>) rs of
        Inl e \<Rightarrow> Inl e
      | Inr (s', rs') \<Rightarrow> Inr (s'\<lparr>stopTimer := False\<rparr>, rs'))"

definition initGame :: "game \<Rightarrow> game" where
  "initGame s =
     s\<lparr>currentId := 1,
       hasGenMines := False,
       isLost := False,
       numRemainingFlags := int (totalMines s),
       stopTimer := True,
       remainingClearCells := int (dimension s * dimension s) - int (totalMines s),
       grid := replicate (dimension s * dimension s) newClose\<rparr>"

text \<open>The program as loaded, with the settings \<open>d\<close> and \<open>m\<close>, after \<open>initGame()\<close>.\<close>

definition newGame :: "nat \<Rightarrow> nat \<Rightarrow> game" where
  "newGame d m =
     initGame \<lparr>dimension = d, totalMines = m, grid = [], minables = [], currentId = 1,
               hasGenMines = False, isLost = False, numRemainingFlags = int m,
               remainingClearCells = int (d * d) - int m, stopTimer = False,
               winCalls = 0\<rparr>"

section \<open>Play\<close>

definition win :: "game \<Rightarrow> game" where
  "win s = s\<lparr>stopTimer := True, winCalls := Suc (winCalls s)\<rparr>"

definition lose :: "game \<Rightarrow> game" where
  "lose s = s\<lparr>stopTimer := True, isLost := True\<rparr>"

text \<open>
  \<open>openCell\<close> recurses into the closed neighbours of a cell with no mine around it. As
  for \<open>updateId\<close>, the first argument bounds the recursion depth, and lemma
  \<open>openCell_total\<close> shows the depth the callers pass is enough. The neighbours are
  tested with \<open>isEmpty\<close> one after the other, each on the grid the calls before it
  left. \<open>getState(pos).flagged\<close> is read for a position of the field only, where the
  cell exists.
\<close>

fun openCell :: "nat \<Rightarrow> game \<Rightarrow> Vec2 \<Rightarrow> game option" where
  "openCell 0 s pos = None"
| "openCell (Suc k) s pos =
     (let d = dimension s;
          nbs = neighbors d pos;
          s1 = (if (case getState d (grid s) pos of None \<Rightarrow> False | Some c \<Rightarrow> flagged c)
                then s\<lparr>numRemainingFlags := numRemainingFlags s + 1\<rparr> else s);
          s2 = s1\<lparr>grid := setState d (grid s1) pos newOpen\<rparr>;
          mineCount = length (filter (isMine d (grid s2)) nbs);
          r = (if mineCount = 0 then
                 fold (\<lambda>neighbor acc.
                         case acc of
                           None \<Rightarrow> None
                         | Some s3 \<Rightarrow>
                             if isEmpty d (grid s3) neighbor
                             then openCell k s3 neighbor
                             else Some s3)
                   nbs (Some s2)
               else Some s2)
      in case r of
           None \<Rightarrow> None
         | Some s4 \<Rightarrow>
             (let s5 = s4\<lparr>remainingClearCells := remainingClearCells s4 - 1\<rparr>
              in Some (if remainingClearCells s5 = 0 then win s5 else s5)))"

text \<open>
  \<open>toggleFlag\<close> flips the flag of the cell object in place. The click handler below
  reaches it only with a cell that exists.
\<close>

definition toggleFlag :: "game \<Rightarrow> Vec2 \<Rightarrow> game" where
  "toggleFlag s pos =
     (case getState (dimension s) (grid s) pos of
        None \<Rightarrow> s
      | Some state \<Rightarrow>
          if flagged state
          then s\<lparr>grid := setState (dimension s) (grid s) pos (state\<lparr>flagged := False\<rparr>),
                 numRemainingFlags := numRemainingFlags s + 1\<rparr>
          else s\<lparr>grid := setState (dimension s) (grid s) pos (state\<lparr>flagged := True\<rparr>),
                 numRemainingFlags := numRemainingFlags s - 1\<rparr>)"

text \<open>
  The click handler of the game canvas. \<open>state\<close> is read before the mines are
  generated, as in the source. A click outside the grid reads \<open>undefined\<close>, and the
  first property read of it throws.
\<close>

definition clickCell ::
  "game \<Rightarrow> Vec2 \<Rightarrow> bool \<Rightarrow> nat list \<Rightarrow> error + (game \<times> nat list)" where
  "clickCell s clickPos shiftKey rs =
     (case getState (dimension s) (grid s) clickPos of
        None \<Rightarrow> Inl TypeError
      | Some state \<Rightarrow>
          if shiftKey then
            (if kind state \<noteq> Open then Inr (toggleFlag s clickPos, rs) else Inr (s, rs))
          else if \<not> flagged state then
            (case (if \<not> hasGenMines s then
                     (case populateMines s clickPos rs of
                        Inl e \<Rightarrow> Inl e
                      | Inr (s', rs') \<Rightarrow> Inr (s'\<lparr>hasGenMines := True\<rparr>, rs'))
                   else Inr (s, rs)) of
               Inl e \<Rightarrow> Inl e
             | Inr (s1, rs1) \<Rightarrow>
                 if kind state = Mine then Inr (lose s1, rs1)
                 else if kind state = Close then
                   (case openCell (Suc (length (grid s1))) s1 clickPos of
                      None \<Rightarrow> Inl OutOfFuel
                    | Some s2 \<Rightarrow> Inr (s2, rs1))
                 else Inr (s1, rs1))
          else Inr (s, rs))"

section \<open>Predicates of the statements and proofs\<close>

text \<open>The index of a position of the field in the flat grid.\<close>

definition idx :: "nat \<Rightarrow> Vec2 \<Rightarrow> nat" where
  "idx d pos = nat (vx pos + vy pos * int d)"

text \<open>How many cells of the grid are objects of the class \<open>k\<close>.\<close>

definition countKind :: "cellClass \<Rightarrow> cell list \<Rightarrow> nat" where
  "countKind k g = length (filter (\<lambda>c. kind c = k) g)"

text \<open>A board as \<open>initGame\<close> leaves it: \<open>dimension * dimension\<close> cells, all \<open>Close\<close>.\<close>

definition allClosed :: "game \<Rightarrow> bool" where
  "allClosed s =
     (length (grid s) = dimension s * dimension s
      \<and> list_all (\<lambda>c. kind c = Close) (grid s))"

text \<open>
  \<open>closeEq g h\<close>: \<open>h\<close> is \<open>g\<close> with some \<open>Close\<close> cells replaced by \<open>new Close()\<close>, which
  is what the rejected candidates of \<open>generateMine\<close> leave behind.
\<close>

definition closeEq :: "cell list \<Rightarrow> cell list \<Rightarrow> bool" where
  "closeEq g h =
     (length h = length g
      \<and> (\<forall>i<length g. h ! i = g ! i \<or> (kind (g ! i) = Close \<and> h ! i = newClose)))"

text \<open>
  The pool during generation: distinct positions of the field, each still \<open>Close\<close> and
  not adjacent to the first click.
\<close>

definition poolOk :: "nat \<Rightarrow> Vec2 \<Rightarrow> game \<Rightarrow> bool" where
  "poolOk d click s =
     (dimension s = d \<and> length (grid s) = d * d \<and> distinct (minables s)
      \<and> (\<forall>p\<in>set (minables s).
            \<not> isOutsideField d p \<and> kind (grid s ! idx d p) = Close
            \<and> \<not> adjacentTo click p))"

text \<open>
  \<open>recolored n g g'\<close>: \<open>g'\<close> is \<open>g\<close> with the id of some cells set to \<open>n\<close>.
  \<open>settled d n g g'\<close>: every cell that differs has, in \<open>g'\<close>, only mines of id \<open>n\<close> as
  orthogonal mine neighbours. \<open>pending n g\<close> counts the cells whose id is not \<open>n\<close>.
\<close>

definition recolored :: "int \<Rightarrow> cell list \<Rightarrow> cell list \<Rightarrow> bool" where
  "recolored n g g' =
     (length g' = length g
      \<and> (\<forall>i<length g. g' ! i = g ! i \<or> g' ! i = (g ! i)\<lparr>cid := Num n\<rparr>))"

definition settled :: "nat \<Rightarrow> int \<Rightarrow> cell list \<Rightarrow> cell list \<Rightarrow> bool" where
  "settled d n g g' =
     (\<forall>p. \<not> isOutsideField d p \<longrightarrow> g' ! idx d p \<noteq> g ! idx d p \<longrightarrow>
        (\<forall>dir\<in>set ORTHO_DIRS.
           \<not> isOutsideField d (add p dir) \<longrightarrow>
           kind (g' ! idx d (add p dir)) = Mine \<longrightarrow>
           cid (g' ! idx d (add p dir)) = Num n))"

definition pending :: "int \<Rightarrow> cell list \<Rightarrow> nat" where
  "pending n g = length (filter (\<lambda>c. cid c \<noteq> Num n) g)"

text \<open>No cell of the field that is not a mine has only mines around it.\<close>

definition noSurround :: "nat \<Rightarrow> cell list \<Rightarrow> bool" where
  "noSurround d g =
     (\<forall>p. \<not> isOutsideField d p \<longrightarrow> \<not> isMine d g p \<longrightarrow> \<not> isSurrounded d g p)"

text \<open>Two orthogonally adjacent mines of the field carry the same id.\<close>

definition clusterClosed :: "nat \<Rightarrow> cell list \<Rightarrow> bool" where
  "clusterClosed d g =
     (\<forall>p. \<forall>dir\<in>set ORTHO_DIRS.
        \<not> isOutsideField d p \<longrightarrow> \<not> isOutsideField d (add p dir) \<longrightarrow>
        isMine d g p \<longrightarrow> isMine d g (add p dir) \<longrightarrow>
        getId d g p = getId d g (add p dir))"

text \<open>No mine of the field is adjacent to (or on) the first click.\<close>

definition safeZone :: "nat \<Rightarrow> Vec2 \<Rightarrow> cell list \<Rightarrow> bool" where
  "safeZone d click g =
     (\<forall>p. \<not> isOutsideField d p \<longrightarrow> isMine d g p \<longrightarrow> \<not> adjacentTo click p)"

text \<open>
  8-connectivity of the cells that are not mines: \<open>reach8 d g p q\<close> holds when a path of
  such cells, each a neighbour of the one before, leads from \<open>p\<close> to \<open>q\<close>.
\<close>

definition nonMine :: "nat \<Rightarrow> cell list \<Rightarrow> Vec2 \<Rightarrow> bool" where
  "nonMine d g p = (\<not> isOutsideField d p \<and> \<not> isMine d g p)"

inductive reach8 :: "nat \<Rightarrow> cell list \<Rightarrow> Vec2 \<Rightarrow> Vec2 \<Rightarrow> bool" where
  here: "nonMine d g p \<Longrightarrow> reach8 d g p p"
| step: "reach8 d g p q \<Longrightarrow> r \<in> set (neighbors d q) \<Longrightarrow> nonMine d g r \<Longrightarrow> reach8 d g p r"

text \<open>
  A sequence of \<open>openCell\<close> calls, each made on a cell of the field that is \<open>Close\<close> at
  that moment. The result is \<open>None\<close> when a call of the list is not of that kind.
\<close>

fun openCells :: "game \<Rightarrow> Vec2 list \<Rightarrow> game option" where
  "openCells s [] = Some s"
| "openCells s (p # ps) =
     (if isEmpty (dimension s) (grid s) p
      then (case openCell (Suc (length (grid s))) s p of
              None \<Rightarrow> None
            | Some s' \<Rightarrow> openCells s' ps)
      else None)"

text \<open>
  \<open>wonBetween c c'\<close>: the counter \<open>remainingClearCells\<close>, stepping down from \<open>c\<close> to \<open>c'\<close>,
  passes zero. \<open>opened s s'\<close>: \<open>s'\<close> is \<open>s\<close> after some complete \<open>openCell\<close> calls on
  closed cells.
\<close>

definition wonBetween :: "int \<Rightarrow> int \<Rightarrow> nat" where
  "wonBetween c c' = (if c' \<le> 0 \<and> 0 < c then 1 else 0)"

definition opened :: "game \<Rightarrow> game \<Rightarrow> bool" where
  "opened s s' =
     (dimension s' = dimension s \<and> length (grid s') = length (grid s)
      \<and> (\<forall>i<length (grid s).
            grid s' ! i = grid s ! i
            \<or> (kind (grid s ! i) = Close \<and> kind (grid s' ! i) = Open))
      \<and> remainingClearCells s' =
          remainingClearCells s
            - (int (countKind Close (grid s)) - int (countKind Close (grid s')))
      \<and> winCalls s' =
          winCalls s + wonBetween (remainingClearCells s) (remainingClearCells s'))"

text \<open>
  \<open>grown d click k s s'\<close>: what \<open>k\<close> completed calls of \<open>generateMine\<close> do to a state with
  a pool in order.
\<close>

definition grown :: "nat \<Rightarrow> Vec2 \<Rightarrow> nat \<Rightarrow> game \<Rightarrow> game \<Rightarrow> bool" where
  "grown d click k s s' =
     (poolOk d click s'
      \<and> countKind Mine (grid s') = countKind Mine (grid s) + k
      \<and> countKind Close (grid s') + k = countKind Close (grid s)
      \<and> countKind Open (grid s') = countKind Open (grid s)
      \<and> (safeZone d click (grid s) \<longrightarrow> safeZone d click (grid s'))
      \<and> (noSurround d (grid s) \<longrightarrow> noSurround d (grid s'))
      \<and> (clusterClosed d (grid s) \<longrightarrow> clusterClosed d (grid s'))
      \<and> currentId s \<le> currentId s'
      \<and> totalMines s' = totalMines s
      \<and> remainingClearCells s' = remainingClearCells s
      \<and> winCalls s' = winCalls s
      \<and> numRemainingFlags s' = numRemainingFlags s)"

subsection \<open>Example boards\<close>

text \<open>
  A 4 x 4 game with 4 mines, first click at (3, 3), draws 4, 4, 2, 3: the mines land on
  (0, 1), (1, 1), (2, 0) and (2, 1). \<open>islandGame\<close> is the state \<open>populateMines\<close> returns
  (lemma \<open>island_run\<close>):

  \<^verbatim>\<open>  . . M .
  M M M .
  . . . .
  . . . .\<close>
\<close>

definition islandGame :: game where
  "islandGame =
     \<lparr>dimension = 4, totalMines = 4,
      grid = [newClose, newClose, newMine (Num 0), newClose,
              newMine (Num 0), newMine (Num 0), newMine (Num 0), newClose,
              newClose, newClose, newClose, newClose,
              newClose, newClose, newClose, newClose],
      minables = [Vec2 0 0, Vec2 1 0, Vec2 3 0, Vec2 3 1, Vec2 0 2, Vec2 1 2,
                  Vec2 0 3, Vec2 1 3],
      currentId = 5, hasGenMines = False, isLost = False, numRemainingFlags = 4,
      remainingClearCells = 12, stopTimer = False, winCalls = 0\<rparr>"

text \<open>
  The same game at the start of \<open>populateMines\<close> (\<open>poolGame\<close>: the pool is built, no mine
  yet), with the first candidate (0, 1) placed and accepted (\<open>candidateGame\<close>), after the
  whole first call of \<open>generateMine\<close> (\<open>firstMineGame\<close>), and with the candidate (1, 1)
  accepted instead (\<open>interiorGame\<close>, draw 5).
\<close>

definition poolGame :: game where
  "poolGame = (newGame 4 4)\<lparr>minables := buildMinables 4 (Vec2 3 3)\<rparr>"

definition candidateGame :: game where
  "candidateGame =
     (newGame 4 4)
       \<lparr>grid := (replicate 16 newClose)[4 := newMine Null],
        minables := [Vec2 0 0, Vec2 1 0, Vec2 2 0, Vec2 3 0, Vec2 1 1, Vec2 2 1, Vec2 3 1,
                     Vec2 0 2, Vec2 1 2, Vec2 0 3, Vec2 1 3]\<rparr>"

definition firstMineGame :: game where
  "firstMineGame =
     candidateGame\<lparr>grid := (replicate 16 newClose)[4 := newMine (Num 0)], currentId := 2\<rparr>"

definition interiorGame :: game where
  "interiorGame =
     (newGame 4 4)
       \<lparr>grid := (replicate 16 newClose)[5 := newMine Null],
        minables := [Vec2 0 0, Vec2 1 0, Vec2 2 0, Vec2 3 0, Vec2 0 1, Vec2 2 1, Vec2 3 1,
                     Vec2 0 2, Vec2 1 2, Vec2 0 3, Vec2 1 3]\<rparr>"

text \<open>
  The same game with the draws 5, 5, 1, 5: the mines land on (1, 1), (2, 1), (1, 0) and
  (0, 2). The first mine has all four orthogonal neighbours in the field and no mine next
  to it, so its id stays \<open>null\<close>. The second joins it with the fresh id 1, and \<open>updateId\<close>
  recolours the first from \<open>null\<close> to 1 (\<open>pairGame\<close>, the state after two calls of
  \<open>generateMine\<close>). The third lies on the upper boundary and takes the id 0, and
  \<open>updateId\<close> recolours both earlier mines from 1 to 0. \<open>joinedGame\<close> is the state
  \<open>populateMines\<close> returns (lemma \<open>joined_run\<close>):

  \<^verbatim>\<open>  . M . .
  . M M .
  M . . .
  . . . .\<close>
\<close>

definition pairGame :: game where
  "pairGame =
     (newGame 4 4)
       \<lparr>grid := (replicate 16 newClose)[5 := newMine (Num 1), 6 := newMine (Num 1)],
        minables := [Vec2 0 0, Vec2 1 0, Vec2 2 0, Vec2 3 0, Vec2 0 1, Vec2 3 1,
                     Vec2 0 2, Vec2 1 2, Vec2 0 3, Vec2 1 3],
        currentId := 2\<rparr>"

definition joinedGame :: game where
  "joinedGame =
     \<lparr>dimension = 4, totalMines = 4,
      grid = [newClose, newMine (Num 0), newClose, newClose,
              newClose, newMine (Num 0), newMine (Num 0), newClose,
              newMine (Num 0), newClose, newClose, newClose,
              newClose, newClose, newClose, newClose],
      minables = [Vec2 0 0, Vec2 2 0, Vec2 3 0, Vec2 0 1, Vec2 3 1, Vec2 1 2,
                  Vec2 0 3, Vec2 1 3],
      currentId = 4, hasGenMines = False, isLost = False, numRemainingFlags = 4,
      remainingClearCells = 12, stopTimer = False, winCalls = 0\<rparr>"

text \<open>
  The same game in play. \<open>clickedGame\<close> is the state after the first click on (3, 3),
  which generates the mines of \<open>islandGame\<close> and opens the two lower rows (lemma
  \<open>clicked_run\<close>). \<open>wonGame\<close> is \<open>islandGame\<close> with every cell that is not a mine opened.
\<close>

definition clickedGame :: game where
  "clickedGame =
     islandGame
       \<lparr>grid := [newClose, newClose, newMine (Num 0), newClose,
                 newMine (Num 0), newMine (Num 0), newMine (Num 0), newClose,
                 newOpen, newOpen, newOpen, newOpen,
                 newOpen, newOpen, newOpen, newOpen],
        hasGenMines := True, remainingClearCells := 4\<rparr>"

definition wonGame :: game where
  "wonGame =
     islandGame
       \<lparr>grid := [newOpen, newOpen, newMine (Num 0), newOpen,
                 newMine (Num 0), newMine (Num 0), newMine (Num 0), newOpen,
                 newOpen, newOpen, newOpen, newOpen,
                 newOpen, newOpen, newOpen, newOpen],
        remainingClearCells := 0, stopTimer := True, winCalls := 1\<rparr>"

section \<open>Lemmas\<close>

subsection \<open>Indices and cells of the field\<close>

lemma field_index:
  assumes "\<not> isOutsideField d p"
  shows "0 \<le> vx p + vy p * int d" and "vx p + vy p * int d < int (d * d)"
proof -
  from assms have x: "0 \<le> vx p" "vx p < int d" and y: "0 \<le> vy p" "vy p < int d"
    by (auto simp: isOutsideField_def)
  show "0 \<le> vx p + vy p * int d" using x y by simp
  have "vy p + 1 \<le> int d" using y by simp
  then have "(vy p + 1) * int d \<le> int d * int d"
    by (intro mult_right_mono) auto
  then have "vy p * int d + int d \<le> int d * int d" by (simp add: algebra_simps)
  then show "vx p + vy p * int d < int (d * d)" using x by simp
qed

lemma idx_less: "\<not> isOutsideField d p \<Longrightarrow> idx d p < d * d"
  using field_index[of d p] by (simp add: idx_def nat_less_iff)

lemma idx_inj:
  assumes "\<not> isOutsideField d p" "\<not> isOutsideField d q" "idx d p = idx d q"
  shows "p = q"
proof -
  from assms(1) have p: "0 \<le> vx p" "vx p < int d" "0 \<le> vy p"
    by (auto simp: isOutsideField_def)
  from assms(2) have q: "0 \<le> vx q" "vx q < int d" "0 \<le> vy q"
    by (auto simp: isOutsideField_def)
  have e: "vx p + vy p * int d = vx q + vy q * int d"
    using assms(3) field_index(1)[OF assms(1)] field_index(1)[OF assms(2)]
    by (simp add: idx_def)
  have "(vx p + vy p * int d) div int d = vy p" using p by simp
  moreover have "(vx q + vy q * int d) div int d = vy q" using q by simp
  ultimately have "vy p = vy q" using e by simp
  with e have "vx p = vx q" by simp
  with \<open>vy p = vy q\<close> show ?thesis by (cases p; cases q) simp
qed

lemma getState_field:
  "length g = d * d \<Longrightarrow> \<not> isOutsideField d p \<Longrightarrow> getState d g p = Some (g ! idx d p)"
  using field_index[of d p] by (simp add: getState_def idx_def)

lemma setState_field:
  "length g = d * d \<Longrightarrow> \<not> isOutsideField d p \<Longrightarrow> setState d g p c = g[idx d p := c]"
  using field_index[of d p] by (simp add: setState_def idx_def)

lemma setId_field:
  "length g = d * d \<Longrightarrow> \<not> isOutsideField d p \<Longrightarrow>
   setId d g p v = g[idx d p := (g ! idx d p)\<lparr>cid := v\<rparr>]"
  by (simp add: setId_def getState_field setState_field)

lemma isMine_field:
  "length g = d * d \<Longrightarrow> \<not> isOutsideField d p \<Longrightarrow> isMine d g p = (kind (g ! idx d p) = Mine)"
  by (simp add: isMine_def getState_field)

lemma isEmpty_field:
  "length g = d * d \<Longrightarrow> isEmpty d g p = (\<not> isOutsideField d p \<and> kind (g ! idx d p) = Close)"
  by (auto simp: isEmpty_def getState_field)

lemma getId_field:
  "length g = d * d \<Longrightarrow> \<not> isOutsideField d p \<Longrightarrow> getId d g p = cid (g ! idx d p)"
  by (simp add: getId_def getState_field)

lemma getId_outside: "isOutsideField d p \<Longrightarrow> getId d g p = Num 0"
  by (simp add: getId_def)

lemma jseq_Num: "jseq v (Num n) = (v = Num n)"
  by (cases v) auto

lemma jseq_Null: "jseq v Null = (\<forall>n. v \<noteq> Num n)"
  by (cases v) auto

lemma add_negate: "add (add p dir) (negate dir) = p"
  by (cases p) (simp add: add_def negate_def)

lemma negate_ortho: "dir \<in> set ORTHO_DIRS \<Longrightarrow> negate dir \<in> set ORTHO_DIRS"
  by (auto simp: ORTHO_DIRS_def negate_def NORTH_def SOUTH_def EAST_def WEST_def)

lemma filter_update_count:
  "i < length xs \<Longrightarrow>
   length (filter P (xs[i := v])) + (if P (xs ! i) then 1 else 0)
     = length (filter P xs) + (if P v then 1 else 0)"
proof (induction xs arbitrary: i)
  case Nil
  then show ?case by simp
next
  case (Cons a xs)
  then show ?case by (cases i) auto
qed

lemma filter_pointwise_le:
  "length xs = length ys \<Longrightarrow> (\<forall>i<length xs. P (ys ! i) \<longrightarrow> P (xs ! i)) \<Longrightarrow>
   length (filter P ys) \<le> length (filter P xs)"
proof (induction xs ys rule: list_induct2)
  case Nil
  then show ?case by simp
next
  case (Cons x xs y ys)
  have "\<forall>i<length xs. P (ys ! i) \<longrightarrow> P (xs ! i)"
    using Cons.prems by (metis Suc_less_eq length_Cons nth_Cons_Suc)
  moreover have "P y \<longrightarrow> P x" using Cons.prems by (metis length_Cons nth_Cons_0 zero_less_Suc)
  ultimately show ?case using Cons.IH by auto
qed

subsection \<open>Folds over optional states and recoloured grids\<close>

lemma fold_opt_run:
  assumes "I a"
    and step: "\<And>x u. x \<in> set ys \<Longrightarrow> I u \<Longrightarrow> \<exists>v. f x u = Some v \<and> I v \<and> R u v \<and> T x v"
    and refl: "\<And>u. R u u"
    and trans: "\<And>u v w. I u \<Longrightarrow> R u v \<Longrightarrow> R v w \<Longrightarrow> R u w"
    and pres: "\<And>x u v. I u \<Longrightarrow> T x u \<Longrightarrow> R u v \<Longrightarrow> T x v"
  shows "\<exists>b. fold (\<lambda>x acc. case acc of None \<Rightarrow> None | Some u \<Rightarrow> f x u) ys (Some a) = Some b
             \<and> I b \<and> R a b \<and> (\<forall>x\<in>set ys. T x b)"
  using assms(1) step
proof (induction ys arbitrary: a)
  case Nil
  then show ?case using refl by simp
next
  case (Cons y ys)
  from Cons.prems(2)[of y a] Cons.prems(1)
  obtain a1 where a1: "f y a = Some a1" "I a1" "R a a1" "T y a1" by auto
  have "\<exists>b. fold (\<lambda>x acc. case acc of None \<Rightarrow> None | Some u \<Rightarrow> f x u) ys (Some a1) = Some b
             \<and> I b \<and> R a1 b \<and> (\<forall>x\<in>set ys. T x b)"
    by (rule Cons.IH[OF a1(2)]) (use Cons.prems(2) in auto)
  then obtain b where b: "fold (\<lambda>x acc. case acc of None \<Rightarrow> None | Some u \<Rightarrow> f x u) ys (Some a1) = Some b"
    "I b" "R a1 b" "\<forall>x\<in>set ys. T x b" by blast
  have "R a b" using trans[OF Cons.prems(1) a1(3) b(3)] .
  moreover have "T y b" using pres[OF a1(2) a1(4) b(3)] .
  ultimately show ?case using a1(1) b by simp
qed

lemma recolored_refl: "recolored n g g"
  by (simp add: recolored_def)

lemma recolored_trans: "recolored n g h \<Longrightarrow> recolored n h k \<Longrightarrow> recolored n g k"
  unfolding recolored_def
  apply (intro conjI allI impI)
   apply simp
  subgoal for i
    apply (elim conjE)
    apply (drule spec[of _ i])+
    apply auto
    done
  done

lemma recolored_length: "recolored n g h \<Longrightarrow> length h = length g"
  by (simp add: recolored_def)

lemma recolored_kind: "recolored n g h \<Longrightarrow> i < length g \<Longrightarrow> kind (h ! i) = kind (g ! i)"
  unfolding recolored_def by (elim conjE, drule spec[of _ i]) auto

lemma recolored_flagged: "recolored n g h \<Longrightarrow> i < length g \<Longrightarrow> flagged (h ! i) = flagged (g ! i)"
  unfolding recolored_def by (elim conjE, drule spec[of _ i]) auto

lemma recolored_cid:
  "recolored n g h \<Longrightarrow> i < length g \<Longrightarrow> cid (g ! i) = Num n \<Longrightarrow> cid (h ! i) = Num n"
  unfolding recolored_def by (elim conjE, drule spec[of _ i]) auto

lemma recolored_changed:
  "recolored n g h \<Longrightarrow> i < length g \<Longrightarrow> h ! i \<noteq> g ! i \<Longrightarrow> cid (h ! i) = Num n"
  unfolding recolored_def by (elim conjE, drule spec[of _ i]) auto

lemma recolored_same:
  "recolored n g h \<Longrightarrow> i < length g \<Longrightarrow> cid (h ! i) \<noteq> Num n \<Longrightarrow> h ! i = g ! i"
  unfolding recolored_def by (elim conjE, drule spec[of _ i]) auto

lemma recolored_update: "i < length g \<Longrightarrow> recolored n g (g[i := (g ! i)\<lparr>cid := Num n\<rparr>])"
  by (auto simp: recolored_def nth_list_update)

lemma recolored_map_kind: "recolored n g h \<Longrightarrow> map kind h = map kind g"
  by (rule nth_equalityI) (auto simp: recolored_length recolored_kind)

lemma recolored_pending: "recolored n g h \<Longrightarrow> pending n h \<le> pending n g"
  unfolding pending_def
  by (rule filter_pointwise_le) (auto simp: recolored_length dest: recolored_cid)

lemma pending_update:
  assumes "i < length g" "cid (g ! i) \<noteq> Num n"
  shows "pending n (g[i := (g ! i)\<lparr>cid := Num n\<rparr>]) < pending n g"
  using filter_update_count[OF assms(1), of "\<lambda>c. cid c \<noteq> Num n" "(g ! i)\<lparr>cid := Num n\<rparr>"] assms(2)
  by (simp add: pending_def)

lemma pending_le_length: "pending n g \<le> length g"
  by (simp add: pending_def)

lemma settled_refl: "settled d n g g"
  by (simp add: settled_def)

lemma settled_trans:
  assumes len: "length g = d * d" and gh: "recolored n g h" "settled d n g h"
    and hk: "recolored n h k" "settled d n h k"
  shows "settled d n g k"
  unfolding settled_def
proof (intro allI impI ballI)
  fix p dir
  assume p: "\<not> isOutsideField d p" and ch: "k ! idx d p \<noteq> g ! idx d p"
    and dir: "dir \<in> set ORTHO_DIRS" and q: "\<not> isOutsideField d (add p dir)"
    and mine: "kind (k ! idx d (add p dir)) = Mine"
  have lh: "length h = d * d" using gh(1) len by (simp add: recolored_length)
  have j: "idx d (add p dir) < length h" using idx_less[OF q] lh by simp
  show "cid (k ! idx d (add p dir)) = Num n"
  proof (cases "h ! idx d p = g ! idx d p")
    case True
    with ch have "k ! idx d p \<noteq> h ! idx d p" by simp
    with hk(2) p dir q mine show ?thesis unfolding settled_def by blast
  next
    case False
    have "kind (h ! idx d (add p dir)) = Mine"
      using recolored_kind[OF hk(1) j] mine by simp
    with gh(2) p dir q False have "cid (h ! idx d (add p dir)) = Num n"
      unfolding settled_def by blast
    then show ?thesis using recolored_cid[OF hk(1) j] by simp
  qed
qed

subsection \<open>The flood of updateId\<close>

lemma updateId_run:
  "length g = d * d \<Longrightarrow> pending n g < k \<Longrightarrow>
   \<exists>g'. updateId k d g p n from = Some g' \<and> recolored n g g'
        \<and> (\<not> isOutsideField d p \<longrightarrow> cid (g' ! idx d p) = Num n)
        \<and> ((\<not> isOutsideField d (add p from) \<longrightarrow> kind (g ! idx d (add p from)) = Mine
              \<longrightarrow> cid (g ! idx d (add p from)) = Num n)
             \<longrightarrow> settled d n g g')"
proof (induction k arbitrary: g p "from")
  case 0
  then show ?case by simp
next
  case (Suc k)
  note len = Suc.prems(1)
  show ?case
  proof (cases "\<not> isOutsideField d p \<and> \<not> jseq (getId d g p) (Num n)")
    case False
    then have "updateId (Suc k) d g p n from = Some g" by auto
    moreover have "\<not> isOutsideField d p \<longrightarrow> cid (g ! idx d p) = Num n"
      using False by (auto simp: jseq_Num getId_field[OF len])
    ultimately show ?thesis by (simp add: recolored_refl settled_refl)
  next
    case True
    then have inp: "\<not> isOutsideField d p" and ne: "cid (g ! idx d p) \<noteq> Num n"
      by (auto simp: jseq_Num getId_field[OF len])
    define g1 where "g1 = g[idx d p := (g ! idx d p)\<lparr>cid := Num n\<rparr>]"
    define mineDirs where "mineDirs = filter (\<lambda>dir. isMine d g1 (add p dir)) ORTHO_DIRS"
    define f where "f = (\<lambda>dir g2. if dir \<noteq> from then updateId k d g2 (add p dir) n (negate dir) else Some g2)"
    have ip: "idx d p < length g" using idx_less[OF inp] len by simp
    have g1: "setId d g p (Num n) = g1" by (simp add: g1_def setId_field[OF len inp])
    have len1: "length g1 = d * d" by (simp add: g1_def len)
    have rc1: "recolored n g g1" unfolding g1_def by (rule recolored_update[OF ip])
    have pend1: "pending n g1 < k"
      using pending_update[OF ip ne] Suc.prems(2) by (simp add: g1_def)
    have cp1: "cid (g1 ! idx d p) = Num n" using ip by (simp add: g1_def)
    have unf: "updateId (Suc k) d g p n from =
        fold (\<lambda>dir acc. case acc of None \<Rightarrow> None | Some u \<Rightarrow> f dir u) mineDirs (Some g1)"
      unfolding f_def mineDirs_def using True by (simp add: g1 Let_def)
    define I where "I = (\<lambda>u. length u = d * d \<and> recolored n g1 u)"
    define R where "R = (\<lambda>u v. recolored n u v \<and> settled d n u v)"
    define T where "T = (\<lambda>dir (v::cell list). dir \<noteq> from \<longrightarrow> \<not> isOutsideField d (add p dir)
                           \<longrightarrow> cid (v ! idx d (add p dir)) = Num n)"
    have "\<exists>b. fold (\<lambda>x acc. case acc of None \<Rightarrow> None | Some u \<Rightarrow> f x u) mineDirs (Some g1) = Some b
             \<and> I b \<and> R g1 b \<and> (\<forall>x\<in>set mineDirs. T x b)"
    proof (rule fold_opt_run)
      show "I g1" by (simp add: I_def len1 recolored_refl)
    next
      fix dir u assume "dir \<in> set mineDirs" and Iu: "I u"
      from Iu have lu: "length u = d * d" and ru: "recolored n g1 u" by (auto simp: I_def)
      show "\<exists>v. f dir u = Some v \<and> I v \<and> R u v \<and> T dir v"
      proof (cases "dir = from")
        case True
        then show ?thesis using Iu by (simp add: f_def R_def T_def recolored_refl settled_refl)
      next
        case False
        have pu: "pending n u < k" using recolored_pending[OF ru] pend1 by simp
        have "cid (u ! idx d p) = Num n"
          using recolored_cid[OF ru _ cp1] ip len len1 by simp
        then have pre: "\<not> isOutsideField d (add (add p dir) (negate dir)) \<longrightarrow>
            kind (u ! idx d (add (add p dir) (negate dir))) = Mine \<longrightarrow>
            cid (u ! idx d (add (add p dir) (negate dir))) = Num n"
          by (simp add: add_negate)
        from Suc.IH[OF lu pu, of "add p dir" "negate dir"] pre
        obtain v where v: "updateId k d u (add p dir) n (negate dir) = Some v"
          "recolored n u v" "settled d n u v"
          "\<not> isOutsideField d (add p dir) \<longrightarrow> cid (v ! idx d (add p dir)) = Num n"
          by blast
        have "I v" using v(2) lu ru by (auto simp: I_def recolored_length intro: recolored_trans)
        then show ?thesis using v False by (simp add: f_def R_def T_def)
      qed
    next
      fix u show "R u u" by (simp add: R_def recolored_refl settled_refl)
    next
      fix u v w assume "I u" "R u v" "R v w"
      then show "R u w"
        unfolding R_def I_def using recolored_trans settled_trans by blast
    next
      fix dir u v assume "I u" "T dir u" "R u v"
      then show "T dir v"
        unfolding R_def I_def T_def using recolored_cid idx_less by metis
    qed
    then obtain g' where g': "updateId (Suc k) d g p n from = Some g'"
      "I g'" "R g1 g'" "\<forall>x\<in>set mineDirs. T x g'"
      using unf by auto
    from g'(2,3) have rc1': "recolored n g1 g'" and st1': "settled d n g1 g'"
      and len': "length g' = d * d"
      by (auto simp: I_def R_def)
    have rc: "recolored n g g'" using recolored_trans[OF rc1 rc1'] .
    have cp: "cid (g' ! idx d p) = Num n"
      using recolored_cid[OF rc1' _ cp1] ip len len1 by simp
    have "settled d n g g'"
      if pre0: "\<not> isOutsideField d (add p from) \<longrightarrow> kind (g ! idx d (add p from)) = Mine
              \<longrightarrow> cid (g ! idx d (add p from)) = Num n"
      unfolding settled_def
    proof (intro allI impI ballI)
      fix q dir
      assume q: "\<not> isOutsideField d q" and ch: "g' ! idx d q \<noteq> g ! idx d q"
        and dir: "dir \<in> set ORTHO_DIRS" and r: "\<not> isOutsideField d (add q dir)"
        and mine: "kind (g' ! idx d (add q dir)) = Mine"
      have jr: "idx d (add q dir) < d * d" using idx_less[OF r] .
      show "cid (g' ! idx d (add q dir)) = Num n"
      proof (cases "q = p")
        case False
        then have "idx d q \<noteq> idx d p" using idx_inj[OF q inp] by blast
        then have "g1 ! idx d q = g ! idx d q" by (simp add: g1_def)
        with ch have "g' ! idx d q \<noteq> g1 ! idx d q" by simp
        with st1' q dir r mine show ?thesis unfolding settled_def by blast
      next
        case True
        have "kind (g1 ! idx d (add p dir)) = Mine"
          using recolored_kind[OF rc1', of "idx d (add p dir)"] mine jr len1 True by simp
        then have "isMine d g1 (add p dir)"
          using r True by (simp add: isMine_field[OF len1])
        then have md: "dir \<in> set mineDirs" using dir by (simp add: mineDirs_def)
        show ?thesis
        proof (cases "dir = from")
          case False
          with g'(4) md r True show ?thesis by (auto simp: T_def)
        next
          case same: True
          have "kind (g ! idx d (add p from)) = Mine"
            using recolored_kind[OF rc, of "idx d (add p from)"] mine jr len True same by simp
          with pre0 r True same have "cid (g ! idx d (add p from)) = Num n" by simp
          then show ?thesis
            using recolored_cid[OF rc, of "idx d (add p from)"] jr len True same by simp
        qed
      qed
    qed
    with g'(1) rc cp show ?thesis by simp
  qed
qed

lemma updateId_total:
  assumes "length g = d * d"
  shows "updateId (Suc (length g)) d g p n from \<noteq> None"
  using updateId_run[OF assms, of n "Suc (length g)" p "from"] pending_le_length[of n g]
  by (auto simp: less_Suc_eq_le)

subsection \<open>The retry loop\<close>

lemma closeEq_refl: "closeEq g g"
  by (simp add: closeEq_def)

lemma closeEq_length: "closeEq g h \<Longrightarrow> length h = length g"
  by (simp add: closeEq_def)

lemma closeEq_kind: "closeEq g h \<Longrightarrow> i < length g \<Longrightarrow> kind (h ! i) = kind (g ! i)"
  unfolding closeEq_def by (elim conjE, drule spec[of _ i]) (auto simp: newClose_def)

lemma closeEq_mine: "closeEq g h \<Longrightarrow> i < length g \<Longrightarrow> kind (g ! i) = Mine \<Longrightarrow> h ! i = g ! i"
  unfolding closeEq_def by (elim conjE, drule spec[of _ i]) auto

lemma closeEq_trans: "closeEq g h \<Longrightarrow> closeEq h k \<Longrightarrow> closeEq g k"
  unfolding closeEq_def
  apply (intro conjI allI impI)
   apply simp
  subgoal for i
    apply (elim conjE)
    apply (drule spec[of _ i])+
    apply (auto simp: newClose_def)
    done
  done

lemma closeEq_update:
  "i < length g \<Longrightarrow> kind (g ! i) = Close \<Longrightarrow> closeEq g (g[i := newClose])"
  by (auto simp: closeEq_def nth_list_update)

lemma closeEq_map_kind: "closeEq g h \<Longrightarrow> map kind h = map kind g"
  by (rule nth_equalityI) (auto simp: closeEq_length closeEq_kind)

lemma removeItem_distinct:
  assumes "distinct xs" "i < length xs"
  shows "distinct (removeItem xs i)" and "set (removeItem xs i) = set xs - {xs ! i}"
proof -
  have xs: "xs = take i xs @ xs ! i # drop (Suc i) xs"
    using assms(2) by (rule id_take_nth_drop)
  have d: "distinct (take i xs @ xs ! i # drop (Suc i) xs)" using assms(1) xs by simp
  then show "distinct (removeItem xs i)" by (simp add: removeItem_def)
  have "set xs = set (take i xs @ xs ! i # drop (Suc i) xs)" using xs by simp
  then show "set (removeItem xs i) = set xs - {xs ! i}"
    using d by (auto simp: removeItem_def)
qed

lemma removeItem_length: "i < length xs \<Longrightarrow> length (removeItem xs i) < length xs"
  by (simp add: removeItem_def)

lemma randomMinablePos_result:
  assumes "randomMinablePos s rs = Inr (p, s', rs')" "distinct (minables s)"
  shows "\<exists>ms. s' = s\<lparr>minables := ms\<rparr> \<and> distinct ms \<and> set ms = set (minables s) - {p}
            \<and> p \<in> set (minables s) \<and> length ms < length (minables s)"
proof -
  from assms(1) obtain i where i: "i < length (minables s)" "p = minables s ! i"
    "s' = s\<lparr>minables := removeItem (minables s) i\<rparr>"
    by (auto simp: randomMinablePos_def split: if_splits list.splits)
  show ?thesis
    using removeItem_distinct[OF assms(2) i(1)] removeItem_length[OF i(1)] i
    by (intro exI[of _ "removeItem (minables s) i"]) simp
qed

lemma retryLoop_result:
  assumes "retryLoop s pos rs = Inr (pos', s', rs')"
    and "dimension s = d" and "length (grid s) = d * d"
    and "distinct (minables s)" and "pos \<notin> set (minables s)"
    and "\<not> isOutsideField d pos"
    and "\<forall>p\<in>set (minables s). \<not> isOutsideField d p \<and> kind (grid s ! idx d p) = Close"
    and "grid s ! idx d pos = newMine Null"
  shows "\<exists>h ms. closeEq ((grid s)[idx d pos := newClose]) h
           \<and> s' = s\<lparr>grid := h[idx d pos' := newMine Null], minables := ms\<rparr>
           \<and> kind (h ! idx d pos') = Close
           \<and> pos' \<in> set (pos # minables s)
           \<and> set ms \<subseteq> set (minables s) - {pos'}
           \<and> distinct ms
           \<and> \<not> rejected d (h[idx d pos' := newMine Null]) pos'"
  using assms
proof (induction s pos rs rule: retryLoop.induct)
  case (1 s pos rs)
  note len = "1.prems"(3) and inp = "1.prems"(6)
  have res: "(if rejected (dimension s) (grid s) pos then
        (case randomMinablePos
                (s\<lparr>grid := setState (dimension s) (grid s) pos newClose\<rparr>) rs of
           Inl e \<Rightarrow> Inl e
         | Inr (pos', s', rs') \<Rightarrow>
             retryLoop
               (s'\<lparr>grid := setState (dimension s') (grid s') pos' (newMine Null)\<rparr>)
               pos' rs')
      else Inr (pos, s, rs)) = Inr (pos', s', rs')"
    using "1.prems"(1) by (subst (asm) retryLoop.simps)
  have ip: "idx d pos < length (grid s)" using idx_less[OF inp] len by simp
  show ?case
  proof (cases "rejected (dimension s) (grid s) pos")
    case False
    then have eq: "pos' = pos" "s' = s" using res by auto
    let ?core = "(grid s)[idx d pos := newClose]"
    have gs: "?core[idx d pos := newMine Null] = grid s"
      using "1.prems"(8) by (metis list_update_id list_update_overwrite)
    have "kind (?core ! idx d pos) = Close" using ip by (simp add: newClose_def)
    moreover have "\<not> rejected d (grid s) pos" using False "1.prems"(2) by simp
    ultimately show ?thesis
      using eq "1.prems"(4,5) closeEq_refl[of ?core] gs
      by (intro exI[of _ ?core] exI[of _ "minables s"]) auto
  next
    case True
    define core where "core = (grid s)[idx d pos := newClose]"
    define s1 where "s1 = s\<lparr>grid := setState (dimension s) (grid s) pos newClose\<rparr>"
    have s1: "s1 = s\<lparr>grid := core\<rparr>"
      by (simp add: s1_def core_def "1.prems"(2) setState_field[OF len inp])
    from res True obtain p2 s2 rs2 where
      r: "randomMinablePos s1 rs = Inr (p2, s2, rs2)"
      and rec: "retryLoop (s2\<lparr>grid := setState (dimension s2) (grid s2) p2 (newMine Null)\<rparr>) p2 rs2
                  = Inr (pos', s', rs')"
      by (auto simp: s1_def split: sum.splits)
    have ds1: "distinct (minables s1)" using "1.prems"(4) by (simp add: s1)
    from randomMinablePos_result[OF r ds1] obtain ms2 where
      ms2: "s2 = s1\<lparr>minables := ms2\<rparr>" "distinct ms2" "set ms2 = set (minables s1) - {p2}"
        "p2 \<in> set (minables s1)" by blast
    have p2m: "p2 \<in> set (minables s)" using ms2(4) by (simp add: s1)
    have m2: "set ms2 = set (minables s) - {p2}" using ms2(3) by (simp add: s1)
    have p2f: "\<not> isOutsideField d p2" and p2c: "kind (grid s ! idx d p2) = Close"
      using "1.prems"(7) p2m by auto
    have p2ne: "p2 \<noteq> pos" using p2m "1.prems"(5) by auto
    have i2ne: "idx d p2 \<noteq> idx d pos" using idx_inj[OF p2f inp] p2ne by blast
    have i2: "idx d p2 < length (grid s)" using idx_less[OF p2f] len by simp
    have s2: "s2 = s\<lparr>grid := core, minables := ms2\<rparr>" using ms2(1) by (simp add: s1)
    define s3 where "s3 = s2\<lparr>grid := setState (dimension s2) (grid s2) p2 (newMine Null)\<rparr>"
    have lc: "length core = d * d" by (simp add: core_def len)
    have s3: "s3 = s\<lparr>grid := core[idx d p2 := newMine Null], minables := ms2\<rparr>"
      by (simp add: s3_def s2 "1.prems"(2) setState_field[OF lc p2f])
    have IH: "\<exists>h ms. closeEq ((grid s3)[idx d p2 := newClose]) h
           \<and> s' = s3\<lparr>grid := h[idx d pos' := newMine Null], minables := ms\<rparr>
           \<and> kind (h ! idx d pos') = Close
           \<and> pos' \<in> set (p2 # minables s3)
           \<and> set ms \<subseteq> set (minables s3) - {pos'}
           \<and> distinct ms
           \<and> \<not> rejected d (h[idx d pos' := newMine Null]) pos'"
    proof (rule "1.IH"[OF True r[unfolded s1_def] refl refl, folded s3_def])
      show "retryLoop s3 p2 rs2 = Inr (pos', s', rs')" using rec by (simp add: s3_def)
      show "dimension s3 = d" by (simp add: s3 "1.prems"(2))
      show "length (grid s3) = d * d" by (simp add: s3 lc)
      show "distinct (minables s3)" using ms2(2) by (simp add: s3)
      show "p2 \<notin> set (minables s3)" using m2 by (simp add: s3)
      show "\<not> isOutsideField d p2" by (rule p2f)
      show "\<forall>p\<in>set (minables s3). \<not> isOutsideField d p \<and> kind (grid s3 ! idx d p) = Close"
      proof
        fix p assume "p \<in> set (minables s3)"
        then have pm: "p \<in> set (minables s)" and pne2: "p \<noteq> p2" using m2 by (auto simp: s3)
        then have pf: "\<not> isOutsideField d p" and pc: "kind (grid s ! idx d p) = Close"
          using "1.prems"(7) by auto
        have "p \<noteq> pos" using pm "1.prems"(5) by auto
        then have "idx d p \<noteq> idx d pos" "idx d p \<noteq> idx d p2"
          using idx_inj[OF pf inp] idx_inj[OF pf p2f] pne2 by blast+
        then have "grid s3 ! idx d p = grid s ! idx d p" by (simp add: s3 core_def)
        with pf pc show "\<not> isOutsideField d p \<and> kind (grid s3 ! idx d p) = Close" by simp
      qed
      show "grid s3 ! idx d p2 = newMine Null" using i2 by (simp add: s3 core_def)
    qed
    then obtain h ms where h: "closeEq ((grid s3)[idx d p2 := newClose]) h"
      "s' = s3\<lparr>grid := h[idx d pos' := newMine Null], minables := ms\<rparr>"
      "kind (h ! idx d pos') = Close"
      "pos' \<in> set (p2 # minables s3)" "set ms \<subseteq> set (minables s3) - {pos'}"
      "distinct ms" "\<not> rejected d (h[idx d pos' := newMine Null]) pos'" by blast
    have "kind (core ! idx d p2) = Close" using i2ne p2c by (simp add: core_def)
    then have "closeEq core (core[idx d p2 := newClose])"
      using i2 by (intro closeEq_update) (simp_all add: core_def)
    moreover have "(grid s3)[idx d p2 := newClose] = core[idx d p2 := newClose]"
      by (simp add: s3)
    ultimately have c: "closeEq core h" using h(1) closeEq_trans by metis
    have "pos' \<in> set (pos # minables s)" using h(4) m2 p2m by (auto simp: s3)
    moreover have "set ms \<subseteq> set (minables s) - {pos'}" using h(5) m2 by (auto simp: s3)
    moreover have "s' = s\<lparr>grid := h[idx d pos' := newMine Null], minables := ms\<rparr>"
      using h(2) by (simp add: s3)
    ultimately show ?thesis using c h(3,6,7) unfolding core_def by blast
  qed
qed

subsection \<open>Accepting a mine and assigning its id\<close>

lemma acceptMine_result:
  assumes ok: "poolOk d click s" and acc: "acceptMine s rs = Inr (pos, s', rs')"
  shows "\<exists>h ms. closeEq (grid s) h
           \<and> s' = s\<lparr>grid := h[idx d pos := newMine Null], minables := ms\<rparr>
           \<and> kind (h ! idx d pos) = Close
           \<and> pos \<in> set (minables s)
           \<and> set ms \<subseteq> set (minables s) - {pos}
           \<and> distinct ms
           \<and> \<not> rejected d (h[idx d pos := newMine Null]) pos"
proof -
  from ok have dim: "dimension s = d" and len: "length (grid s) = d * d"
    and dis: "distinct (minables s)"
    and pool: "\<forall>p\<in>set (minables s). \<not> isOutsideField d p \<and> kind (grid s ! idx d p) = Close"
    by (auto simp: poolOk_def)
  from acc obtain p1 s1 rs1 where
    r: "randomMinablePos s rs = Inr (p1, s1, rs1)"
    and l: "retryLoop (s1\<lparr>grid := setState (dimension s1) (grid s1) p1 (newMine Null)\<rparr>) p1 rs1
              = Inr (pos, s', rs')"
    by (auto simp: acceptMine_def split: sum.splits)
  from randomMinablePos_result[OF r dis] obtain ms1 where
    ms1: "s1 = s\<lparr>minables := ms1\<rparr>" "distinct ms1" "set ms1 = set (minables s) - {p1}"
      "p1 \<in> set (minables s)" by blast
  have p1f: "\<not> isOutsideField d p1" and p1c: "kind (grid s ! idx d p1) = Close"
    using pool ms1(4) by auto
  have i1: "idx d p1 < length (grid s)" using idx_less[OF p1f] len by simp
  define s2 where "s2 = s1\<lparr>grid := setState (dimension s1) (grid s1) p1 (newMine Null)\<rparr>"
  have s2: "s2 = s\<lparr>grid := (grid s)[idx d p1 := newMine Null], minables := ms1\<rparr>"
    by (simp add: s2_def ms1(1) dim setState_field[OF len p1f])
  have "\<exists>h ms. closeEq ((grid s2)[idx d p1 := newClose]) h
           \<and> s' = s2\<lparr>grid := h[idx d pos := newMine Null], minables := ms\<rparr>
           \<and> kind (h ! idx d pos) = Close
           \<and> pos \<in> set (p1 # minables s2)
           \<and> set ms \<subseteq> set (minables s2) - {pos}
           \<and> distinct ms
           \<and> \<not> rejected d (h[idx d pos := newMine Null]) pos"
  proof (rule retryLoop_result)
    show "retryLoop s2 p1 rs1 = Inr (pos, s', rs')" using l by (simp add: s2_def)
    show "dimension s2 = d" by (simp add: s2 dim)
    show "length (grid s2) = d * d" by (simp add: s2 len)
    show "distinct (minables s2)" by (simp add: s2 ms1(2))
    show "p1 \<notin> set (minables s2)" by (simp add: s2 ms1(3))
    show "\<not> isOutsideField d p1" by (rule p1f)
    show "\<forall>p\<in>set (minables s2). \<not> isOutsideField d p \<and> kind (grid s2 ! idx d p) = Close"
    proof
      fix p assume "p \<in> set (minables s2)"
      then have pm: "p \<in> set (minables s)" and ne: "p \<noteq> p1" using ms1(3) by (auto simp: s2)
      then have pf: "\<not> isOutsideField d p" and pc: "kind (grid s ! idx d p) = Close"
        using pool by auto
      have "idx d p \<noteq> idx d p1" using idx_inj[OF pf p1f] ne by blast
      then show "\<not> isOutsideField d p \<and> kind (grid s2 ! idx d p) = Close"
        using pf pc by (simp add: s2)
    qed
    show "grid s2 ! idx d p1 = newMine Null" using i1 by (simp add: s2)
  qed
  then obtain h ms where h: "closeEq ((grid s2)[idx d p1 := newClose]) h"
    "s' = s2\<lparr>grid := h[idx d pos := newMine Null], minables := ms\<rparr>"
    "kind (h ! idx d pos) = Close" "pos \<in> set (p1 # minables s2)"
    "set ms \<subseteq> set (minables s2) - {pos}" "distinct ms"
    "\<not> rejected d (h[idx d pos := newMine Null]) pos" by blast
  have "(grid s2)[idx d p1 := newClose] = (grid s)[idx d p1 := newClose]" by (simp add: s2)
  moreover have "closeEq (grid s) ((grid s)[idx d p1 := newClose])"
    using closeEq_update[OF i1 p1c] .
  ultimately have "closeEq (grid s) h" using h(1) closeEq_trans by metis
  moreover have "s' = s\<lparr>grid := h[idx d pos := newMine Null], minables := ms\<rparr>"
    using h(2) by (simp add: s2)
  moreover have "pos \<in> set (minables s)" using h(4) ms1(3,4) by (auto simp: s2)
  moreover have "set ms \<subseteq> set (minables s) - {pos}" using h(5) ms1(3) by (auto simp: s2)
  ultimately show ?thesis using h(3,6,7) by blast
qed

lemma assign_fold:
  assumes len1: "length g1 = d * d" and inp: "\<not> isOutsideField d pos"
    and cp: "cid (g1 ! idx d pos) = Num n" and fuel: "length g1 < k"
  shows "\<exists>g3. fold (\<lambda>dir acc. case acc of None \<Rightarrow> None
                         | Some g2 \<Rightarrow> updateId k d g2 (add pos dir) n (negate dir))
                 dirs (Some g1) = Some g3
            \<and> recolored n g1 g3 \<and> settled d n g1 g3
            \<and> (\<forall>dir\<in>set dirs. \<not> isOutsideField d (add pos dir)
                  \<longrightarrow> cid (g3 ! idx d (add pos dir)) = Num n)"
proof -
  define f where "f = (\<lambda>dir g2. updateId k d g2 (add pos dir) n (negate dir))"
  define I where "I = (\<lambda>u. length u = d * d \<and> recolored n g1 u)"
  define R where "R = (\<lambda>u v. recolored n u v \<and> settled d n u v)"
  define T where "T = (\<lambda>dir (v::cell list). \<not> isOutsideField d (add pos dir)
                           \<longrightarrow> cid (v ! idx d (add pos dir)) = Num n)"
  have ip: "idx d pos < length g1" using idx_less[OF inp] len1 by simp
  have "\<exists>b. fold (\<lambda>x acc. case acc of None \<Rightarrow> None | Some u \<Rightarrow> f x u) dirs (Some g1) = Some b
             \<and> I b \<and> R g1 b \<and> (\<forall>x\<in>set dirs. T x b)"
  proof (rule fold_opt_run)
    show "I g1" by (simp add: I_def len1 recolored_refl)
  next
    fix dir u assume Iu: "I u"
    from Iu have lu: "length u = d * d" and ru: "recolored n g1 u" by (auto simp: I_def)
    have pu: "pending n u < k" using pending_le_length[of n u] lu len1 fuel by simp
    have "cid (u ! idx d pos) = Num n" using recolored_cid[OF ru ip cp] .
    then have pre: "\<not> isOutsideField d (add (add pos dir) (negate dir)) \<longrightarrow>
        kind (u ! idx d (add (add pos dir) (negate dir))) = Mine \<longrightarrow>
        cid (u ! idx d (add (add pos dir) (negate dir))) = Num n"
      by (simp add: add_negate)
    from updateId_run[OF lu pu, of "add pos dir" "negate dir"] pre
    obtain v where v: "updateId k d u (add pos dir) n (negate dir) = Some v"
      "recolored n u v" "settled d n u v"
      "\<not> isOutsideField d (add pos dir) \<longrightarrow> cid (v ! idx d (add pos dir)) = Num n"
      by blast
    have "I v" using v(2) lu ru by (auto simp: I_def recolored_length intro: recolored_trans)
    then show "\<exists>v. f dir u = Some v \<and> I v \<and> R u v \<and> T dir v"
      using v by (simp add: f_def R_def T_def)
  next
    fix u show "R u u" by (simp add: R_def recolored_refl settled_refl)
  next
    fix u v w assume "I u" "R u v" "R v w"
    then show "R u w"
      unfolding R_def I_def using recolored_trans settled_trans by blast
  next
    fix dir u v assume "I u" "T dir u" "R u v"
    then show "T dir v"
      unfolding R_def I_def T_def using recolored_cid idx_less by metis
  qed
  then show ?thesis unfolding f_def I_def R_def T_def by blast
qed

lemma assignGroupId_result:
  assumes dim: "dimension s = d" and len: "length (grid s) = d * d"
    and inp: "\<not> isOutsideField d pos"
    and md: "mineDirs = filter (\<lambda>dir. \<not> isEmpty d (grid s) (add pos dir)) ORTHO_DIRS"
    and n: "n = fold (\<lambda>dir i. let neighborId = getId d (grid s) (add pos dir)
                        in if \<not> jseq neighborId Null then minId i neighborId else i)
                   mineDirs (currentId s)"
  shows "mineDirs = [] \<Longrightarrow> assignGroupId s pos = Inr s"
    and "mineDirs \<noteq> [] \<Longrightarrow>
           \<exists>g3. assignGroupId s pos = Inr (s\<lparr>grid := g3, currentId := currentId s + 1\<rparr>)
             \<and> recolored n ((grid s)[idx d pos := (grid s ! idx d pos)\<lparr>cid := Num n\<rparr>]) g3
             \<and> settled d n ((grid s)[idx d pos := (grid s ! idx d pos)\<lparr>cid := Num n\<rparr>]) g3
             \<and> (\<forall>dir\<in>set mineDirs. \<not> isOutsideField d (add pos dir)
                  \<longrightarrow> cid (g3 ! idx d (add pos dir)) = Num n)"
proof -
  show "mineDirs = [] \<Longrightarrow> assignGroupId s pos = Inr s"
    unfolding assignGroupId_def md Let_def dim by simp
next
  assume ne: "mineDirs \<noteq> []"
  define g1 where "g1 = (grid s)[idx d pos := (grid s ! idx d pos)\<lparr>cid := Num n\<rparr>]"
  have ip: "idx d pos < length (grid s)" using idx_less[OF inp] len by simp
  have len1: "length g1 = d * d" by (simp add: g1_def len)
  have cp: "cid (g1 ! idx d pos) = Num n" using ip by (simp add: g1_def)
  have fuel: "length g1 < Suc (length (grid s))" by (simp add: g1_def)
  from assign_fold[OF len1 inp cp fuel, of mineDirs]
  obtain g3 where g3: "fold (\<lambda>dir acc. case acc of None \<Rightarrow> None
                         | Some g2 \<Rightarrow> updateId (Suc (length (grid s))) d g2 (add pos dir) n (negate dir))
                 mineDirs (Some g1) = Some g3"
    "recolored n g1 g3" "settled d n g1 g3"
    "\<forall>dir\<in>set mineDirs. \<not> isOutsideField d (add pos dir)
                  \<longrightarrow> cid (g3 ! idx d (add pos dir)) = Num n" by blast
  have "assignGroupId s pos = Inr (s\<lparr>grid := g3, currentId := currentId s + 1\<rparr>)"
    unfolding assignGroupId_def Let_def dim
    using ne g3(1)
    unfolding md n g1_def setId_field[OF len inp, symmetric] Let_def
    by (simp del: updateId.simps)
  then show "\<exists>g3. assignGroupId s pos = Inr (s\<lparr>grid := g3, currentId := currentId s + 1\<rparr>)
             \<and> recolored n ((grid s)[idx d pos := (grid s ! idx d pos)\<lparr>cid := Num n\<rparr>]) g3
             \<and> settled d n ((grid s)[idx d pos := (grid s ! idx d pos)\<lparr>cid := Num n\<rparr>]) g3
             \<and> (\<forall>dir\<in>set mineDirs. \<not> isOutsideField d (add pos dir)
                  \<longrightarrow> cid (g3 ! idx d (add pos dir)) = Num n)"
    using g3(2,3,4) unfolding g1_def by blast
qed

subsection \<open>Cluster closure\<close>

lemma settledD:
  "settled d n g g' \<Longrightarrow> \<not> isOutsideField d p \<Longrightarrow> g' ! idx d p \<noteq> g ! idx d p \<Longrightarrow>
   dir \<in> set ORTHO_DIRS \<Longrightarrow> \<not> isOutsideField d (add p dir) \<Longrightarrow>
   kind (g' ! idx d (add p dir)) = Mine \<Longrightarrow> cid (g' ! idx d (add p dir)) = Num n"
  unfolding settled_def by blast

lemma clusterClosed_field:
  assumes "length g = d * d"
  shows "clusterClosed d g =
     (\<forall>p. \<forall>dir\<in>set ORTHO_DIRS.
        \<not> isOutsideField d p \<longrightarrow> \<not> isOutsideField d (add p dir) \<longrightarrow>
        kind (g ! idx d p) = Mine \<longrightarrow> kind (g ! idx d (add p dir)) = Mine \<longrightarrow>
        cid (g ! idx d p) = cid (g ! idx d (add p dir)))"
  unfolding clusterClosed_def
  by (auto simp: isMine_field[OF assms] getId_field[OF assms])

lemma clusterClosed_closeEq:
  assumes len: "length g = d * d" and ce: "closeEq g h" and cl: "clusterClosed d g"
  shows "clusterClosed d h"
proof -
  have lh: "length h = d * d" using closeEq_length[OF ce] len by simp
  show ?thesis
    unfolding clusterClosed_field[OF lh]
  proof (intro allI ballI impI)
    fix p dir
    assume dir: "dir \<in> set ORTHO_DIRS" and p: "\<not> isOutsideField d p"
      and q: "\<not> isOutsideField d (add p dir)"
      and mp: "kind (h ! idx d p) = Mine" and mq: "kind (h ! idx d (add p dir)) = Mine"
    have ip: "idx d p < length g" and iq: "idx d (add p dir) < length g"
      using idx_less[OF p] idx_less[OF q] len by simp_all
    have kp: "kind (g ! idx d p) = Mine" using closeEq_kind[OF ce ip] mp by simp
    have kq: "kind (g ! idx d (add p dir)) = Mine" using closeEq_kind[OF ce iq] mq by simp
    have "cid (g ! idx d p) = cid (g ! idx d (add p dir))"
      using cl dir p q kp kq unfolding clusterClosed_field[OF len] by blast
    then show "cid (h ! idx d p) = cid (h ! idx d (add p dir))"
      using closeEq_mine[OF ce ip kp] closeEq_mine[OF ce iq kq] by simp
  qed
qed

lemma closed_alone:
  assumes len: "length h = d * d" and inp: "\<not> isOutsideField d pos"
    and cl: "clusterClosed d h"
    and none: "filter (\<lambda>dir. \<not> isEmpty d (h[idx d pos := c]) (add pos dir)) ORTHO_DIRS = []"
  shows "clusterClosed d (h[idx d pos := c])"
proof -
  let ?g = "h[idx d pos := c]"
  have lg: "length ?g = d * d" using len by simp
  have nomine: "kind (?g ! idx d (add pos dir)) \<noteq> Mine"
    if "dir \<in> set ORTHO_DIRS" "\<not> isOutsideField d (add pos dir)" for dir
  proof -
    from none that(1) have "isEmpty d ?g (add pos dir)" by (auto simp: filter_empty_conv)
    then show ?thesis by (simp add: isEmpty_field[OF lg])
  qed
  show ?thesis
    unfolding clusterClosed_field[OF lg]
  proof (intro allI ballI impI)
    fix p dir
    assume dir: "dir \<in> set ORTHO_DIRS" and p: "\<not> isOutsideField d p"
      and q: "\<not> isOutsideField d (add p dir)"
      and mp: "kind (?g ! idx d p) = Mine" and mq: "kind (?g ! idx d (add p dir)) = Mine"
    have pne: "p \<noteq> pos" using nomine[OF dir] q mq by auto
    have qne: "add p dir \<noteq> pos"
    proof
      assume e: "add p dir = pos"
      then have "add pos (negate dir) = p" using add_negate[of p dir] by simp
      with nomine[OF negate_ortho[OF dir]] p mp show False by simp
    qed
    have i1: "idx d p \<noteq> idx d pos" using idx_inj[OF p inp] pne by blast
    have i2: "idx d (add p dir) \<noteq> idx d pos" using idx_inj[OF q inp] qne by blast
    from mp mq i1 i2 have "kind (h ! idx d p) = Mine" "kind (h ! idx d (add p dir)) = Mine"
      by simp_all
    with cl dir p q have "cid (h ! idx d p) = cid (h ! idx d (add p dir))"
      unfolding clusterClosed_field[OF len] by blast
    then show "cid (?g ! idx d p) = cid (?g ! idx d (add p dir))" using i1 i2 by simp
  qed
qed

lemma closed_joined:
  assumes len: "length h = d * d" and inp: "\<not> isOutsideField d pos"
    and cl: "clusterClosed d h"
    and g: "g = h[idx d pos := c]"
    and g1: "g1 = g[idx d pos := (g ! idx d pos)\<lparr>cid := Num n\<rparr>]"
    and rc: "recolored n g1 g3" and st: "settled d n g1 g3"
    and tt: "\<forall>dir\<in>set (filter (\<lambda>dir. \<not> isEmpty d g (add pos dir)) ORTHO_DIRS).
               \<not> isOutsideField d (add pos dir) \<longrightarrow> cid (g3 ! idx d (add pos dir)) = Num n"
  shows "clusterClosed d g3"
proof -
  have lg: "length g = d * d" using len g by simp
  have l1: "length g1 = d * d" using lg g1 by simp
  have l3: "length g3 = d * d" using recolored_length[OF rc] l1 by simp
  have ip: "idx d pos < length h" using idx_less[OF inp] len by simp
  have cp1: "cid (g1 ! idx d pos) = Num n" using ip by (simp add: g1 g)
  have cp3: "cid (g3 ! idx d pos) = Num n" using recolored_cid[OF rc _ cp1] ip l1 len by simp
  have kinds: "kind (g3 ! i) = kind (g ! i)" if "i < d * d" for i
    using recolored_kind[OF rc, of i] that l1 lg
    by (cases "i = idx d pos") (simp_all add: g1)
  have joined: "cid (g3 ! idx d (add pos dir)) = Num n"
    if "dir \<in> set ORTHO_DIRS" "\<not> isOutsideField d (add pos dir)"
      "kind (g3 ! idx d (add pos dir)) = Mine" for dir
  proof -
    have "kind (g ! idx d (add pos dir)) = Mine" using kinds[OF idx_less[OF that(2)]] that(3) by simp
    then have "\<not> isEmpty d g (add pos dir)" by (simp add: isEmpty_field[OF lg])
    with tt that(1,2) show ?thesis by simp
  qed
  show ?thesis
    unfolding clusterClosed_field[OF l3]
  proof (intro allI ballI impI)
    fix p dir
    assume dir: "dir \<in> set ORTHO_DIRS" and p: "\<not> isOutsideField d p"
      and q: "\<not> isOutsideField d (add p dir)"
      and mp: "kind (g3 ! idx d p) = Mine" and mq: "kind (g3 ! idx d (add p dir)) = Mine"
    have jp: "idx d p < length g1" and jq: "idx d (add p dir) < length g1"
      using idx_less[OF p] idx_less[OF q] l1 by simp_all
    have rt: "add (add p dir) (negate dir) = p" by (rule add_negate)
    consider (a) "g3 ! idx d p \<noteq> g1 ! idx d p"
      | (b) "g3 ! idx d (add p dir) \<noteq> g1 ! idx d (add p dir)"
      | (c) "g3 ! idx d p = g1 ! idx d p" "g3 ! idx d (add p dir) = g1 ! idx d (add p dir)"
      by blast
    then show "cid (g3 ! idx d p) = cid (g3 ! idx d (add p dir))"
    proof cases
      case a
      have "cid (g3 ! idx d (add p dir)) = Num n"
        using settledD[OF st p a dir q mq] .
      moreover have "cid (g3 ! idx d p) = Num n" using recolored_changed[OF rc jp a] .
      ultimately show ?thesis by simp
    next
      case b
      have "cid (g3 ! idx d (add (add p dir) (negate dir))) = Num n"
        using settledD[OF st q b negate_ortho[OF dir]] p mp by (simp add: rt)
      moreover have "cid (g3 ! idx d (add p dir)) = Num n" using recolored_changed[OF rc jq b] .
      ultimately show ?thesis by (simp add: rt)
    next
      case c
      show ?thesis
      proof (cases "p = pos")
        case True
        then show ?thesis using joined[OF dir] q mq cp3 by simp
      next
        case pne: False
        show ?thesis
        proof (cases "add p dir = pos")
          case True
          then have e: "add pos (negate dir) = p" using rt by simp
          have "cid (g3 ! idx d p) = Num n"
            using joined[OF negate_ortho[OF dir]] p mp e by simp
          then show ?thesis using True cp3 by simp
        next
          case qne: False
          have i1: "idx d p \<noteq> idx d pos" using idx_inj[OF p inp] pne by blast
          have i2: "idx d (add p dir) \<noteq> idx d pos" using idx_inj[OF q inp] qne by blast
          have e1: "g3 ! idx d p = h ! idx d p" using c(1) i1 by (simp add: g1 g)
          have e2: "g3 ! idx d (add p dir) = h ! idx d (add p dir)" using c(2) i2 by (simp add: g1 g)
          from cl dir p q mp mq e1 e2 have "cid (h ! idx d p) = cid (h ! idx d (add p dir))"
            unfolding clusterClosed_field[OF len] by simp
          then show ?thesis using e1 e2 by simp
        qed
      qed
    qed
  qed
qed

subsection \<open>One call of generateMine\<close>

lemma getState_kinds:
  "map kind g = map kind g' \<Longrightarrow> map_option kind (getState d g p) = map_option kind (getState d g' p)"
proof -
  assume e: "map kind g = map kind g'"
  then have l: "length g = length g'" using length_map by metis
  have "kind (g ! i) = kind (g' ! i)" if "i < length g" for i
    using that e l by (metis nth_map)
  then show ?thesis using l by (auto simp: getState_def Let_def)
qed

lemma isMine_kinds: "map kind g = map kind g' \<Longrightarrow> isMine d g p = isMine d g' p"
  using getState_kinds[of g g' d p] unfolding isMine_def
  by (cases "getState d g p"; cases "getState d g' p") auto

lemma isSurrounded_kinds:
  "map kind g = map kind g' \<Longrightarrow> isSurrounded d g p = isSurrounded d g' p"
  unfolding isSurrounded_def list_all_iff using isMine_kinds[of g g' d] by simp

lemma countKind_kinds:
  assumes e: "map kind g = map kind g'"
  shows "countKind k g = countKind k g'"
proof -
  have "countKind k g = length (filter (\<lambda>x. x = k) (map kind g))"
    by (simp add: countKind_def filter_map comp_def)
  also have "\<dots> = length (filter (\<lambda>x. x = k) (map kind g'))" by (simp only: e)
  also have "\<dots> = countKind k g'" by (simp add: countKind_def filter_map comp_def)
  finally show ?thesis .
qed

lemma countKind_update:
  "i < length g \<Longrightarrow>
   countKind k (g[i := c]) + (if kind (g ! i) = k then 1 else 0)
     = countKind k g + (if kind c = k then 1 else 0)"
  unfolding countKind_def by (rule filter_update_count)

lemmas dir_defs = NORTH_def SOUTH_def EAST_def WEST_def
      NORTHEAST_def NORTHWEST_def SOUTHEAST_def SOUTHWEST_def

lemma all_dirs_cases:
  assumes "dir \<in> set ALL_DIRS"
  obtains "dir = NORTH" | "dir = NORTHEAST" | "dir = EAST" | "dir = SOUTHEAST"
    | "dir = SOUTH" | "dir = SOUTHWEST" | "dir = WEST" | "dir = NORTHWEST"
  using assms unfolding ALL_DIRS_def by auto

lemma negate_all:
  assumes "dir \<in> set ALL_DIRS" shows "negate dir \<in> set ALL_DIRS"
  using assms
  by (rule all_dirs_cases) (simp_all add: ALL_DIRS_def negate_def dir_defs)

lemma neighbors_iff:
  "q \<in> set (neighbors d p) \<longleftrightarrow> \<not> isOutsideField d q \<and> (\<exists>dir\<in>set ALL_DIRS. q = add p dir)"
  unfolding neighbors_def inDirs_def by (simp add: image_iff conj_commute)

lemma neighbors_sym:
  assumes "q \<in> set (neighbors d p)" "\<not> isOutsideField d p"
  shows "p \<in> set (neighbors d q)"
proof -
  from assms(1) obtain dir where dir: "dir \<in> set ALL_DIRS" "q = add p dir"
    by (auto simp: neighbors_iff)
  then have "p = add q (negate dir)" by (simp add: add_negate)
  with negate_all[OF dir(1)] assms(2) show ?thesis by (auto simp: neighbors_iff)
qed

lemma neighbors_field: "q \<in> set (neighbors d p) \<Longrightarrow> \<not> isOutsideField d q"
  by (simp add: neighbors_iff)

lemma neighbors_ne:
  assumes "q \<in> set (neighbors d p)" shows "q \<noteq> p"
proof -
  from assms obtain dir where dir: "dir \<in> set ALL_DIRS" "q = add p dir"
    by (auto simp: neighbors_iff)
  from dir(1) have "add p dir \<noteq> p"
    by (rule all_dirs_cases) (cases p; simp add: add_def dir_defs)+
  with dir(2) show ?thesis by simp
qed

text \<open>One accepted mine: what generateMine changes.\<close>

lemma generateMine_step:
  assumes ok: "poolOk d click s" and gm: "generateMine s rs = Inr (s', rs')"
  shows "\<exists>pos h g3 ms c.
           closeEq (grid s) h \<and> kind (h ! idx d pos) = Close
         \<and> pos \<in> set (minables s) \<and> set ms \<subseteq> set (minables s) - {pos} \<and> distinct ms
         \<and> \<not> rejected d (h[idx d pos := newMine Null]) pos
         \<and> map kind g3 = map kind (h[idx d pos := newMine Null]) \<and> length g3 = d * d
         \<and> s' = s\<lparr>grid := g3, minables := ms, currentId := c\<rparr> \<and> currentId s \<le> c
         \<and> (clusterClosed d (grid s) \<longrightarrow> clusterClosed d g3)"
proof -
  from ok have dim: "dimension s = d" and len: "length (grid s) = d * d"
    and pool: "\<forall>p\<in>set (minables s). \<not> isOutsideField d p"
    by (auto simp: poolOk_def)
  from gm obtain pos s1 where acc: "acceptMine s rs = Inr (pos, s1, rs')"
    and asg: "assignGroupId s1 pos = Inr s'"
    by (auto simp: generateMine_def split: sum.splits)
  from acceptMine_result[OF ok acc] obtain h ms where
    h: "closeEq (grid s) h" "s1 = s\<lparr>grid := h[idx d pos := newMine Null], minables := ms\<rparr>"
      "kind (h ! idx d pos) = Close" "pos \<in> set (minables s)"
      "set ms \<subseteq> set (minables s) - {pos}" "distinct ms"
      "\<not> rejected d (h[idx d pos := newMine Null]) pos" by blast
  define g where "g = h[idx d pos := newMine Null]"
  have inp: "\<not> isOutsideField d pos" using pool h(4) by simp
  have lh: "length h = d * d" using closeEq_length[OF h(1)] len by simp
  have lg: "length g = d * d" by (simp add: g_def lh)
  have dim1: "dimension s1 = d" and len1: "length (grid s1) = d * d" and g1: "grid s1 = g"
    by (simp_all add: h(2) dim lh g_def)
  have clh: "clusterClosed d h" if "clusterClosed d (grid s)"
    using clusterClosed_closeEq[OF len h(1) that] .
  define mineDirs where "mineDirs = filter (\<lambda>dir. \<not> isEmpty d (grid s1) (add pos dir)) ORTHO_DIRS"
  show ?thesis
  proof (cases "mineDirs = []")
    case True
    from assignGroupId_result(1)[OF dim1 len1 inp mineDirs_def refl True] asg
    have s': "s' = s1" by simp
    have cl: "clusterClosed d (grid s) \<longrightarrow> clusterClosed d g"
      using closed_alone[OF lh inp clh] True unfolding mineDirs_def g1 g_def by simp
    have eq: "s' = s\<lparr>grid := g, minables := ms, currentId := currentId s\<rparr>"
      using s' h(2) by (simp add: g_def)
    have rj: "\<not> rejected d (h[idx d pos := newMine Null]) pos" by (rule h(7))
    have mk: "map kind g = map kind (h[idx d pos := newMine Null])" by (simp add: g_def)
    have le: "currentId s \<le> currentId s" by simp
    show ?thesis
      by (rule exI[of _ pos], rule exI[of _ h], rule exI[of _ g], rule exI[of _ ms],
          rule exI[of _ "currentId s"])
         (intro conjI h(1) h(3) h(4) h(5) h(6) rj mk lg eq le cl)
  next
    case False
    define n where "n = fold (\<lambda>dir i. let neighborId = getId d (grid s1) (add pos dir)
                        in if \<not> jseq neighborId Null then minId i neighborId else i)
                   mineDirs (currentId s1)"
    from assignGroupId_result(2)[OF dim1 len1 inp mineDirs_def n_def False]
    obtain g3 where g3a:
      "assignGroupId s1 pos = Inr (s1\<lparr>grid := g3, currentId := currentId s1 + 1\<rparr>)"
      "recolored n ((grid s1)[idx d pos := (grid s1 ! idx d pos)\<lparr>cid := Num n\<rparr>]) g3"
      "settled d n ((grid s1)[idx d pos := (grid s1 ! idx d pos)\<lparr>cid := Num n\<rparr>]) g3"
      "\<forall>dir\<in>set mineDirs.
          \<not> isOutsideField d (add pos dir) \<longrightarrow> cid (g3 ! idx d (add pos dir)) = Num n"
      by blast
    note g3 = g3a(1) g3a(2,3)[unfolded g1] g3a(4)[unfolded mineDirs_def g1]
    have s': "s' = s\<lparr>grid := g3, minables := ms, currentId := currentId s + 1\<rparr>"
      using g3(1) asg h(2) by auto
    have ip: "idx d pos < length g" using idx_less[OF inp] lg by simp
    have "map kind g3 = map kind (g[idx d pos := (g ! idx d pos)\<lparr>cid := Num n\<rparr>])"
      using recolored_map_kind[OF g3(2)] .
    also have "\<dots> = map kind g"
      using ip by (simp add: map_update list_update_same_conv)
    finally have mk: "map kind g3 = map kind (h[idx d pos := newMine Null])"
      by (simp add: g_def)
    have l3: "length g3 = d * d" using recolored_length[OF g3(2)] lg by simp
    have cl: "clusterClosed d (grid s) \<longrightarrow> clusterClosed d g3"
      using closed_joined[OF lh inp clh g_def refl g3(2,3,4)] by blast
    have rj: "\<not> rejected d (h[idx d pos := newMine Null]) pos" by (rule h(7))
    have le: "currentId s \<le> currentId s + 1" by simp
    show ?thesis
      by (rule exI[of _ pos], rule exI[of _ h], rule exI[of _ g3], rule exI[of _ ms],
          rule exI[of _ "currentId s + 1"])
         (intro conjI h(1) h(3) h(4) h(5) h(6) rj mk l3 s' le cl)
  qed
qed

subsection \<open>The board before generation\<close>

lemma distinct_concat_map:
  "distinct ys \<Longrightarrow> (\<forall>y\<in>set ys. distinct (f y)) \<Longrightarrow>
   (\<forall>y\<in>set ys. \<forall>z\<in>set ys. y \<noteq> z \<longrightarrow> set (f y) \<inter> set (f z) = {}) \<Longrightarrow>
   distinct (concat (map f ys))"
proof (induction ys)
  case Nil
  then show ?case by simp
next
  case (Cons y ys)
  have "set (f y) \<inter> set (f z) = {}" if "z \<in> set ys" for z
    using Cons.prems(1,3) that by auto
  then have "set (f y) \<inter> \<Union> (set ` f ` set ys) = {}" by blast
  moreover have "distinct (concat (map f ys))"
    using Cons.IH Cons.prems by auto
  ultimately show ?case using Cons.prems(2) by simp
qed

lemma buildMinables_mem:
  "x < d \<Longrightarrow> y < d \<Longrightarrow> \<not> adjacentTo c (Vec2 (int x) (int y)) \<Longrightarrow>
   Vec2 (int x) (int y) \<in> set (buildMinables d c)"
  unfolding buildMinables_def
  by (simp, intro bexI[of _ y] conjI imageI) simp_all

lemma buildMinables_set:
  "set (buildMinables d c) = {p. \<not> isOutsideField d p \<and> \<not> adjacentTo c p}"
proof (rule set_eqI)
  fix p
  show "p \<in> set (buildMinables d c) \<longleftrightarrow> p \<in> {p. \<not> isOutsideField d p \<and> \<not> adjacentTo c p}"
  proof
    assume "p \<in> set (buildMinables d c)"
    then obtain x y where "x < d" "y < d" "p = Vec2 (int x) (int y)" "\<not> adjacentTo c p"
      by (auto simp: buildMinables_def)
    then show "p \<in> {p. \<not> isOutsideField d p \<and> \<not> adjacentTo c p}"
      by (simp add: isOutsideField_def)
  next
    assume "p \<in> {p. \<not> isOutsideField d p \<and> \<not> adjacentTo c p}"
    then have f: "0 \<le> vx p" "vx p < int d" "0 \<le> vy p" "vy p < int d" and a: "\<not> adjacentTo c p"
      by (auto simp: isOutsideField_def)
    have p: "p = Vec2 (int (nat (vx p))) (int (nat (vy p)))" using f by (cases p) simp
    have "nat (vx p) < d" "nat (vy p) < d" using f by auto
    moreover have "\<not> adjacentTo c (Vec2 (int (nat (vx p))) (int (nat (vy p))))"
      using a p by metis
    ultimately have "Vec2 (int (nat (vx p))) (int (nat (vy p))) \<in> set (buildMinables d c)"
      by (rule buildMinables_mem)
    then show "p \<in> set (buildMinables d c)" using p by metis
  qed
qed

lemma buildMinables_distinct: "distinct (buildMinables d c)"
  unfolding buildMinables_def
proof (rule distinct_concat_map)
  show "distinct [0..<d]" by simp
  show "\<forall>y\<in>set [0..<d]. distinct (filter (\<lambda>pos. \<not> adjacentTo c pos)
          (map (\<lambda>x. Vec2 (int x) (int y)) [0..<d]))"
    by (auto simp: distinct_map inj_on_def)
  show "\<forall>y\<in>set [0..<d]. \<forall>z\<in>set [0..<d]. y \<noteq> z \<longrightarrow>
      set (filter (\<lambda>pos. \<not> adjacentTo c pos) (map (\<lambda>x. Vec2 (int x) (int y)) [0..<d])) \<inter>
      set (filter (\<lambda>pos. \<not> adjacentTo c pos) (map (\<lambda>x. Vec2 (int x) (int z)) [0..<d])) = {}"
    by auto
qed

lemma allClosed_nth:
  "allClosed s \<Longrightarrow> i < length (grid s) \<Longrightarrow> kind (grid s ! i) = Close"
  by (simp add: allClosed_def list_all_length)

lemma allClosed_isMine: "allClosed s \<Longrightarrow> \<not> isMine (dimension s) (grid s) p"
  by (auto simp: isMine_def getState_def Let_def allClosed_nth)

lemma allClosed_counts:
  assumes "allClosed s"
  shows "countKind Mine (grid s) = 0" "countKind Open (grid s) = 0"
    "countKind Close (grid s) = dimension s * dimension s"
proof -
  have a: "\<forall>c\<in>set (grid s). kind c = Close"
    using assms by (simp add: allClosed_def list_all_iff)
  show "countKind Mine (grid s) = 0" using a by (simp add: countKind_def filter_empty_conv)
  show "countKind Open (grid s) = 0" using a by (simp add: countKind_def filter_empty_conv)
  have "filter (\<lambda>c. kind c = Close) (grid s) = grid s" using a by (simp add: filter_id_conv)
  then show "countKind Close (grid s) = dimension s * dimension s"
    using assms by (simp add: countKind_def allClosed_def)
qed

lemma allClosed_poolOk:
  assumes "allClosed s"
  shows "poolOk (dimension s) click (s\<lparr>minables := buildMinables (dimension s) click\<rparr>)"
proof -
  have len: "length (grid s) = dimension s * dimension s" using assms by (simp add: allClosed_def)
  have "kind (grid s ! idx (dimension s) p) = Close" if "\<not> isOutsideField (dimension s) p" for p
    using allClosed_nth[OF assms] idx_less[OF that] len by simp
  then show ?thesis
    by (simp add: poolOk_def len buildMinables_distinct buildMinables_set)
qed

lemma allClosed_safeZone: "allClosed s \<Longrightarrow> safeZone (dimension s) click (grid s)"
  by (simp add: safeZone_def allClosed_isMine)

lemma allClosed_clusterClosed: "allClosed s \<Longrightarrow> clusterClosed (dimension s) (grid s)"
  by (simp add: clusterClosed_def allClosed_isMine)

lemma neighbors_nonempty:
  assumes "\<not> isOutsideField d p" "d \<noteq> 1"
  shows "neighbors d p \<noteq> []"
proof -
  from assms(1) have f: "0 \<le> vx p" "vx p < int d" "0 \<le> vy p" "vy p < int d"
    by (auto simp: isOutsideField_def)
  with assms(2) have d2: "2 \<le> int d" by simp
  have "add p EAST \<in> set (neighbors d p) \<or> add p WEST \<in> set (neighbors d p)"
    using f d2 unfolding neighbors_iff
    by (auto simp: ALL_DIRS_def isOutsideField_def add_def dir_defs)
  then show ?thesis by auto
qed

lemma allClosed_noSurround:
  assumes "allClosed s" "dimension s \<noteq> 1"
  shows "noSurround (dimension s) (grid s)"
  unfolding noSurround_def
proof (intro allI impI)
  fix p assume p: "\<not> isOutsideField (dimension s) p"
  from neighbors_nonempty[OF p assms(2)] obtain q where "q \<in> set (neighbors (dimension s) p)"
    by (cases "neighbors (dimension s) p") auto
  then show "\<not> isSurrounded (dimension s) (grid s) p"
    using allClosed_isMine[OF assms(1)] by (auto simp: isSurrounded_def list_all_iff)
qed

subsection \<open>Invariants of generation\<close>

lemma grown_refl: "poolOk d click s \<Longrightarrow> grown d click 0 s s"
  by (simp add: grown_def)

lemma grown_trans:
  "grown d click j s s' \<Longrightarrow> grown d click k s' s'' \<Longrightarrow> grown d click (j + k) s s''"
  unfolding grown_def by (intro conjI impI) (simp_all)

lemma grown_step:
  assumes ok: "poolOk d click s" and gm: "generateMine s rs = Inr (s', rs')"
  shows "grown d click 1 s s'"
proof -
  from generateMine_step[OF ok gm] obtain pos h g3 ms c where
    ce: "closeEq (grid s) h" and hc: "kind (h ! idx d pos) = Close"
    and pm: "pos \<in> set (minables s)" and sub: "set ms \<subseteq> set (minables s) - {pos}"
    and dis: "distinct ms" and rj: "\<not> rejected d (h[idx d pos := newMine Null]) pos"
    and mk: "map kind g3 = map kind (h[idx d pos := newMine Null])" and l3: "length g3 = d * d"
    and s': "s' = s\<lparr>grid := g3, minables := ms, currentId := c\<rparr>" and le: "currentId s \<le> c"
    and cl: "clusterClosed d (grid s) \<longrightarrow> clusterClosed d g3" by blast
  from ok have dim: "dimension s = d" and len: "length (grid s) = d * d"
    and pool: "\<And>p. p \<in> set (minables s) \<Longrightarrow>
          \<not> isOutsideField d p \<and> kind (grid s ! idx d p) = Close \<and> \<not> adjacentTo click p"
    by (auto simp: poolOk_def)
  define g where "g = h[idx d pos := newMine Null]"
  have inp: "\<not> isOutsideField d pos" and nadj: "\<not> adjacentTo click pos" using pool[OF pm] by auto
  have lh: "length h = d * d" using closeEq_length[OF ce] len by simp
  have lg: "length g = d * d" by (simp add: g_def lh)
  have ip: "idx d pos < length h" using idx_less[OF inp] lh by simp
  have mkh: "map kind h = map kind (grid s)" by (rule closeEq_map_kind[OF ce])
  have mkg: "map kind g3 = map kind g" using mk by (simp add: g_def)
  have gs': "grid s' = g3" and ms': "minables s' = ms" by (simp_all add: s')
  have kind3: "kind (g3 ! idx d p) = (if p = pos then Mine else kind (grid s ! idx d p))"
    if "\<not> isOutsideField d p" for p
  proof -
    have j: "idx d p < d * d" using idx_less[OF that] .
    have "kind (g3 ! idx d p) = map kind g3 ! idx d p" using j l3 by simp
    also have "\<dots> = kind (g ! idx d p)" using mkg j lg by simp
    also have "\<dots> = (if p = pos then Mine else kind (h ! idx d p))"
    proof (cases "p = pos")
      case True
      then show ?thesis using ip by (simp add: g_def newMine_def)
    next
      case False
      then have "idx d p \<noteq> idx d pos" using idx_inj[OF that inp] by blast
      then show ?thesis using False by (simp add: g_def)
    qed
    also have "kind (h ! idx d p) = kind (grid s ! idx d p)"
      using closeEq_kind[OF ce, of "idx d p"] j len by simp
    finally show ?thesis .
  qed
  have mine3: "isMine d g3 p = (p = pos \<or> isMine d (grid s) p)" if "\<not> isOutsideField d p" for p
    using kind3[OF that] by (auto simp: isMine_field[OF l3 that] isMine_field[OF len that])
  have "poolOk d click s'"
    unfolding poolOk_def gs' ms'
  proof (intro conjI ballI)
    show "dimension s' = d" by (simp add: s' dim)
    show "length g3 = d * d" by (rule l3)
    show "distinct ms" by (rule dis)
    fix p assume "p \<in> set ms"
    then have p: "p \<in> set (minables s)" "p \<noteq> pos" using sub by auto
    show "\<not> isOutsideField d p" "\<not> adjacentTo click p" using pool[OF p(1)] by auto
    show "kind (g3 ! idx d p) = Close" using kind3 pool[OF p(1)] p(2) by simp
  qed
  moreover have cnt: "countKind k g3 + (if k = Close then 1 else 0)
      = countKind k (grid s) + (if k = Mine then 1 else 0)" for k
  proof -
    have "countKind k g3 = countKind k g" by (rule countKind_kinds[OF mkg])
    moreover have "countKind k h = countKind k (grid s)" by (rule countKind_kinds[OF mkh])
    moreover have "countKind k g + (if kind (h ! idx d pos) = k then 1 else 0)
      = countKind k h + (if kind (newMine Null) = k then 1 else 0)"
      unfolding g_def by (rule countKind_update[OF ip])
    ultimately show ?thesis using hc by (auto simp: newMine_def)
  qed
  moreover have "safeZone d click g3" if "safeZone d click (grid s)"
    using that nadj mine3 unfolding safeZone_def by blast
  moreover have "noSurround d g3" if ns: "noSurround d (grid s)"
    unfolding noSurround_def
  proof (intro allI impI)
    fix p assume p: "\<not> isOutsideField d p" and nm: "\<not> isMine d g3 p"
    from nm mine3[OF p] have pne: "p \<noteq> pos" and nms: "\<not> isMine d (grid s) p" by auto
    from ns p nms have "\<not> isSurrounded d (grid s) p" by (simp add: noSurround_def)
    then obtain q where q: "q \<in> set (neighbors d p)" "\<not> isMine d (grid s) q"
      by (auto simp: isSurrounded_def list_all_iff)
    show "\<not> isSurrounded d g3 p"
    proof (cases "q = pos")
      case False
      then have "\<not> isMine d g3 q" using mine3[OF neighbors_field[OF q(1)]] q(2) by simp
      then show ?thesis using q(1) by (auto simp: isSurrounded_def list_all_iff)
    next
      case True
      then have "p \<in> set (neighbors d pos)" using neighbors_sym[OF q(1) p] by simp
      moreover have "\<not> list_ex (isSurrounded d g) (neighbors d pos)"
        using rj by (simp add: rejected_def g_def)
      ultimately have "\<not> isSurrounded d g p" by (auto simp: list_ex_iff)
      then show ?thesis using isSurrounded_kinds[OF mkg] by simp
    qed
  qed
  ultimately show ?thesis
    unfolding grown_def gs'
    using cnt[of Mine] cnt[of Close] cnt[of Open] cl le
    by (simp add: s')
qed

lemma generateMines_grown:
  "poolOk d click s \<Longrightarrow> generateMines k s rs = Inr (s', rs') \<Longrightarrow> grown d click k s s'"
proof (induction k arbitrary: s rs)
  case 0
  then show ?case by (simp add: grown_refl)
next
  case (Suc k)
  from Suc.prems(2) obtain s1 rs1 where
    g1: "generateMine s rs = Inr (s1, rs1)" and gk: "generateMines k s1 rs1 = Inr (s', rs')"
    by (auto split: sum.splits)
  have a: "grown d click 1 s s1" by (rule grown_step[OF Suc.prems(1) g1])
  then have "poolOk d click s1" by (simp add: grown_def)
  from grown_trans[OF a Suc.IH[OF this gk]] show ?case by simp
qed

subsection \<open>Errors and the example run\<close>

lemma retryLoop_errors:
  "retryLoop s pos rs = Inl e \<Longrightarrow> e = NoMinableSpaces \<or> e = DrawOutOfRange"
proof (induction s pos rs rule: retryLoop.induct)
  case (1 s pos rs)
  from "1.prems" have res: "(if rejected (dimension s) (grid s) pos then
        (case randomMinablePos
                (s\<lparr>grid := setState (dimension s) (grid s) pos newClose\<rparr>) rs of
           Inl e \<Rightarrow> Inl e
         | Inr (pos', s', rs') \<Rightarrow>
             retryLoop
               (s'\<lparr>grid := setState (dimension s') (grid s') pos' (newMine Null)\<rparr>)
               pos' rs')
      else Inr (pos, s, rs)) = Inl e"
    by (subst (asm) retryLoop.simps)
  then have rj: "rejected (dimension s) (grid s) pos" by (auto split: if_splits)
  show ?case
  proof (cases "randomMinablePos (s\<lparr>grid := setState (dimension s) (grid s) pos newClose\<rparr>) rs")
    case (Inl e')
    then have "e = e'" using res rj by simp
    then show ?thesis using Inl
      by (auto simp: randomMinablePos_def split: if_splits list.splits)
  next
    case (Inr r)
    obtain p2 s2 rs2 where r: "r = (p2, s2, rs2)" by (cases r) auto
    from res rj Inr r have "retryLoop
               (s2\<lparr>grid := setState (dimension s2) (grid s2) p2 (newMine Null)\<rparr>) p2 rs2 = Inl e"
      by simp
    from "1.IH"[OF rj Inr[unfolded r] refl refl this] show ?thesis .
  qed
qed

lemma acceptMine_errors:
  "acceptMine s rs = Inl e \<Longrightarrow> e = NoMinableSpaces \<or> e = DrawOutOfRange"
  unfolding acceptMine_def
  by (auto simp: randomMinablePos_def dest: retryLoop_errors split: sum.splits if_splits list.splits)

lemma generateMine_errors:
  assumes ok: "poolOk d click s" and gm: "generateMine s rs = Inl e"
  shows "e = NoMinableSpaces \<or> e = DrawOutOfRange"
proof (cases "acceptMine s rs")
  case (Inl e')
  then have "e = e'" using gm by (simp add: generateMine_def)
  then show ?thesis using acceptMine_errors[OF Inl] by simp
next
  case (Inr r)
  obtain pos s1 rs1 where r: "r = (pos, s1, rs1)" by (cases r) auto
  from acceptMine_result[OF ok Inr[unfolded r]] obtain h ms where
    h: "s1 = s\<lparr>grid := h[idx d pos := newMine Null], minables := ms\<rparr>"
    "closeEq (grid s) h" "pos \<in> set (minables s)" by blast
  from ok have dim: "dimension s = d" and len: "length (grid s) = d * d"
    and inp: "\<not> isOutsideField d pos" using h(3) by (auto simp: poolOk_def)
  have d1: "dimension s1 = d" by (simp add: h(1) dim)
  have l1: "length (grid s1) = d * d" using closeEq_length[OF h(2)] len by (simp add: h(1))
  have "\<exists>s2. assignGroupId s1 pos = Inr s2"
    using assignGroupId_result[OF d1 l1 inp refl refl]
    by (cases "filter (\<lambda>dir. \<not> isEmpty d (grid s1) (add pos dir)) ORTHO_DIRS = []") blast+
  then show ?thesis using gm Inr r by (auto simp: generateMine_def)
qed

lemma generateMines_errors:
  "poolOk d click s \<Longrightarrow> generateMines k s rs = Inl e \<Longrightarrow>
   e = NoMinableSpaces \<or> e = DrawOutOfRange"
proof (induction k arbitrary: s rs)
  case 0
  then show ?case by simp
next
  case (Suc k)
  show ?case
  proof (cases "generateMine s rs")
    case (Inl e')
    then have "e = e'" using Suc.prems(2) by simp
    then show ?thesis using generateMine_errors[OF Suc.prems(1) Inl] by simp
  next
    case (Inr r)
    obtain s1 rs1 where r: "r = (s1, rs1)" by (cases r) auto
    have "poolOk d click s1"
      using grown_step[OF Suc.prems(1) Inr[unfolded r]] by (simp add: grown_def)
    moreover have "generateMines k s1 rs1 = Inl e" using Suc.prems(2) Inr r by simp
    ultimately show ?thesis by (rule Suc.IH)
  qed
qed

lemma populateMines_errors:
  assumes "allClosed s" and "populateMines s clickPos rs = Inl e"
  shows "e = NoMinableSpaces \<or> e = DrawOutOfRange"
proof -
  from assms(2) have "generateMines (totalMines s)
      (s\<lparr>minables := buildMinables (dimension s) clickPos\<rparr>) rs = Inl e"
    by (auto simp: populateMines_def split: sum.splits)
  from generateMines_errors[OF allClosed_poolOk[OF assms(1)] this] show ?thesis .
qed

lemma populateMines_grown:
  assumes ac: "allClosed s0" and run: "populateMines s0 clickPos rs = Inr (s, rs')"
  shows "\<exists>s1. grown (dimension s0) clickPos (totalMines s0)
            (s0\<lparr>minables := buildMinables (dimension s0) clickPos\<rparr>) s1
          \<and> s = s1\<lparr>stopTimer := False\<rparr>"
proof -
  from run obtain s1 where
    g: "generateMines (totalMines s0) (s0\<lparr>minables := buildMinables (dimension s0) clickPos\<rparr>) rs
         = Inr (s1, rs')" and s: "s = s1\<lparr>stopTimer := False\<rparr>"
    by (auto simp: populateMines_def split: sum.splits)
  from generateMines_grown[OF allClosed_poolOk[OF ac] g] s show ?thesis by blast
qed

lemma island_run: "populateMines (newGame 4 4) (Vec2 3 3) [4, 4, 2, 3] = Inr (islandGame, [])"
  by code_simp

lemma pair_run:
  "generateMines 2 ((newGame 4 4)\<lparr>minables := buildMinables 4 (Vec2 3 3)\<rparr>) [5, 5]
     = Inr (pairGame, [])"
  by code_simp

lemma joined_run: "populateMines (newGame 4 4) (Vec2 3 3) [5, 5, 1, 5] = Inr (joinedGame, [])"
  by code_simp

lemma newGame_allClosed: "allClosed (newGame d m)"
  by (simp add: allClosed_def newGame_def initGame_def list_all_iff newClose_def)

subsection \<open>A mine with no mine next to it\<close>

lemma countKind_zero: "countKind k g = 0 \<Longrightarrow> i < length g \<Longrightarrow> kind (g ! i) \<noteq> k"
  by (auto simp: countKind_def filter_empty_conv)

lemma fold_min_sentinel:
  assumes "\<forall>dir\<in>set ds. getId d g (add pos dir) = Num 0"
  shows "fold (\<lambda>dir i. let neighborId = getId d g (add pos dir)
                        in if \<not> jseq neighborId Null then minId i neighborId else i) ds c
         = (if ds = [] then c else min c 0)"
  using assms
proof (induction ds arbitrary: c)
  case Nil
  then show ?case by simp
next
  case (Cons a ds)
  then show ?case by (cases "ds = []") (simp_all add: Let_def)
qed

text \<open>
  A mine accepted during generation with no mine of the field orthogonally next to it:
  it gets id 0 when an orthogonal neighbour is outside the field, and otherwise
  \<open>assignGroupId\<close> changes nothing.
\<close>

lemma lone_mine:
  assumes ac: "allClosed s0" and cur: "0 \<le> currentId s0"
    and gen: "generateMines k (s0\<lparr>minables := buildMinables (dimension s0) clickPos\<rparr>) rs
           = Inr (s, rs1)"
    and acc: "acceptMine s rs1 = Inr (pos, s1, rs2)"
    and lone: "\<forall>dir\<in>set ORTHO_DIRS. \<not> isOutsideField (dimension s0) (add pos dir) \<longrightarrow>
                 \<not> isMine (dimension s0) (grid s1) (add pos dir)"
  shows "(\<exists>dir\<in>set ORTHO_DIRS. isOutsideField (dimension s0) (add pos dir)) \<Longrightarrow>
           \<exists>g3. assignGroupId s1 pos = Inr (s1\<lparr>grid := g3, currentId := currentId s1 + 1\<rparr>)
              \<and> getId (dimension s0) g3 pos = Num 0"
    and "\<not> (\<exists>dir\<in>set ORTHO_DIRS. isOutsideField (dimension s0) (add pos dir)) \<Longrightarrow>
           assignGroupId s1 pos = Inr s1 \<and> getId (dimension s0) (grid s1) pos = Null"
    and "isMine (dimension s0) (grid s1) pos" and "\<not> isOutsideField (dimension s0) pos"
proof -
  define d where "d = dimension s0"
  note g = generateMines_grown[OF allClosed_poolOk[OF ac] gen, folded d_def]
  from g have ok: "poolOk d clickPos s" and cs: "0 \<le> currentId s"
    and no: "countKind Open (grid s) = 0"
    using cur allClosed_counts(2)[OF ac] by (auto simp: grown_def)
  from ok have dim: "dimension s = d" and len: "length (grid s) = d * d"
    by (auto simp: poolOk_def)
  from acceptMine_result[OF ok acc] obtain h ms where
    h: "closeEq (grid s) h" "s1 = s\<lparr>grid := h[idx d pos := newMine Null], minables := ms\<rparr>"
      "pos \<in> set (minables s)" by blast
  have inp: "\<not> isOutsideField d pos" using ok h(3) by (auto simp: poolOk_def)
  define g1 where "g1 = h[idx d pos := newMine Null]"
  have lh: "length h = d * d" using closeEq_length[OF h(1)] len by simp
  have l1: "length g1 = d * d" by (simp add: g1_def lh)
  have gs1: "grid s1 = g1" and d1: "dimension s1 = d" and c1: "currentId s1 = currentId s"
    by (simp_all add: h(2) g1_def dim)
  have ip: "idx d pos < length h" using idx_less[OF inp] lh by simp
  have cell: "g1 ! idx d pos = newMine Null" using ip by (simp add: g1_def)
  show "isMine (dimension s0) (grid s1) pos"
    using cell unfolding gs1 d_def[symmetric] by (simp add: isMine_field[OF l1 inp] newMine_def)
  show "\<not> isOutsideField (dimension s0) pos" using inp by (simp add: d_def)
  have noOpen: "kind (g1 ! idx d q) \<noteq> Open" if "\<not> isOutsideField d q" for q
  proof (cases "q = pos")
    case True
    then show ?thesis using cell by (simp add: newMine_def)
  next
    case False
    then have "idx d q \<noteq> idx d pos" using idx_inj[OF that inp] by blast
    then have "kind (g1 ! idx d q) = kind (h ! idx d q)" by (simp add: g1_def)
    also have "\<dots> = kind (grid s ! idx d q)"
      using closeEq_kind[OF h(1), of "idx d q"] idx_less[OF that] len by simp
    finally show ?thesis using countKind_zero[OF no, of "idx d q"] idx_less[OF that] len by simp
  qed
  have md: "filter (\<lambda>dir. \<not> isEmpty d g1 (add pos dir)) ORTHO_DIRS
            = filter (\<lambda>dir. isOutsideField d (add pos dir)) ORTHO_DIRS"
  proof (rule filter_cong[OF refl])
    fix dir assume dir: "dir \<in> set ORTHO_DIRS"
    show "(\<not> isEmpty d g1 (add pos dir)) = isOutsideField d (add pos dir)"
    proof (cases "isOutsideField d (add pos dir)")
      case True
      then show ?thesis by (simp add: isEmpty_def)
    next
      case False
      have "\<not> isMine d g1 (add pos dir)"
        using lone dir False unfolding d_def[symmetric] gs1 by blast
      then have "kind (g1 ! idx d (add pos dir)) \<noteq> Mine"
        by (simp add: isMine_field[OF l1 False])
      with noOpen[OF False] have "kind (g1 ! idx d (add pos dir)) = Close"
        by (cases "kind (g1 ! idx d (add pos dir))") auto
      then show ?thesis using False by (simp add: isEmpty_field[OF l1])
    qed
  qed
  define mineDirs where "mineDirs = filter (\<lambda>dir. \<not> isEmpty d (grid s1) (add pos dir)) ORTHO_DIRS"
  define n where "n = fold (\<lambda>dir i. let neighborId = getId d (grid s1) (add pos dir)
                        in if \<not> jseq neighborId Null then minId i neighborId else i)
                   mineDirs (currentId s1)"
  have md': "mineDirs = filter (\<lambda>dir. isOutsideField d (add pos dir)) ORTHO_DIRS"
    unfolding mineDirs_def gs1 by (rule md)
  note res = assignGroupId_result[OF d1 _ inp mineDirs_def n_def, unfolded gs1, OF l1]
  {
    assume "\<exists>dir\<in>set ORTHO_DIRS. isOutsideField (dimension s0) (add pos dir)"
    then have ne: "mineDirs \<noteq> []" unfolding md' d_def by (auto simp: filter_empty_conv)
    have "\<forall>dir\<in>set mineDirs. getId d (grid s1) (add pos dir) = Num 0"
      unfolding md' by (simp add: getId_outside)
    from fold_min_sentinel[OF this, of "currentId s1"] ne cs
    have n0: "n = 0" unfolding n_def c1 by simp
    from res(2)[OF ne] obtain g3 where
      g3: "assignGroupId s1 pos = Inr (s1\<lparr>grid := g3, currentId := currentId s1 + 1\<rparr>)"
      "recolored n (g1[idx d pos := (g1 ! idx d pos)\<lparr>cid := Num n\<rparr>]) g3" by blast
    have "cid ((g1[idx d pos := (g1 ! idx d pos)\<lparr>cid := Num n\<rparr>]) ! idx d pos) = Num n"
      using ip by (simp add: g1_def)
    from recolored_cid[OF g3(2) _ this] ip have "cid (g3 ! idx d pos) = Num n"
      by (simp add: g1_def)
    moreover have "length g3 = d * d" using recolored_length[OF g3(2)] l1 by simp
    ultimately have "getId d g3 pos = Num 0" using n0 inp by (simp add: getId_field)
    then show "\<exists>g3. assignGroupId s1 pos = Inr (s1\<lparr>grid := g3, currentId := currentId s1 + 1\<rparr>)
              \<and> getId (dimension s0) g3 pos = Num 0"
      using g3(1) unfolding d_def by blast
  }
  {
    assume "\<not> (\<exists>dir\<in>set ORTHO_DIRS. isOutsideField (dimension s0) (add pos dir))"
    then have e: "mineDirs = []" unfolding md' d_def by (auto simp: filter_empty_conv)
    have "getId d g1 pos = Null" using cell inp by (simp add: getId_field[OF l1] newMine_def)
    then show "assignGroupId s1 pos = Inr s1 \<and> getId (dimension s0) (grid s1) pos = Null"
      using res(1)[OF e] unfolding gs1 d_def by simp
  }
qed

subsection \<open>The flood of openCell\<close>

lemma countKind_total:
  "countKind Open g + countKind Close g + countKind Mine g = length g"
proof (induction g)
  case Nil
  then show ?case by (simp add: countKind_def)
next
  case (Cons c g)
  then show ?case by (cases "kind c") (simp_all add: countKind_def)
qed

lemma wonBetween_trans:
  "c'' \<le> c' \<Longrightarrow> c' \<le> c \<Longrightarrow> wonBetween c c' + wonBetween c' c'' = wonBetween c c''"
  by (auto simp: wonBetween_def)

lemma wonBetween_last:
  "c' \<le> c \<Longrightarrow> wonBetween c c' + (if c' - 1 = 0 then 1 else 0) = wonBetween c (c' - 1)"
  by (auto simp: wonBetween_def)

lemma opened_refl: "opened s s"
  by (simp add: opened_def wonBetween_def)

lemma opened_cells:
  "opened s s' \<Longrightarrow> i < length (grid s) \<Longrightarrow>
   grid s' ! i = grid s ! i \<or> (kind (grid s ! i) = Close \<and> kind (grid s' ! i) = Open)"
  unfolding opened_def by blast

lemma opened_close_le:
  assumes "opened s s'"
  shows "countKind Close (grid s') \<le> countKind Close (grid s)"
  unfolding countKind_def
proof (rule filter_pointwise_le)
  show "length (grid s) = length (grid s')" using assms by (simp add: opened_def)
  show "\<forall>i<length (grid s). kind (grid s' ! i) = Close \<longrightarrow> kind (grid s ! i) = Close"
    using opened_cells[OF assms] by fastforce
qed

lemma opened_mines:
  assumes "opened s s'"
  shows "countKind Mine (grid s') = countKind Mine (grid s)"
proof -
  have l: "length (grid s) = length (grid s')" using assms by (simp add: opened_def)
  have "countKind Mine (grid s') \<le> countKind Mine (grid s)"
    unfolding countKind_def
    by (rule filter_pointwise_le[OF l]) (use opened_cells[OF assms] in fastforce)
  moreover have "countKind Mine (grid s) \<le> countKind Mine (grid s')"
    unfolding countKind_def
    by (rule filter_pointwise_le[OF l[symmetric]]) (use opened_cells[OF assms] l in fastforce)
  ultimately show ?thesis by simp
qed

lemma opened_trans:
  assumes a: "opened s s'" and b: "opened s' s''"
  shows "opened s s''"
proof -
  have l: "length (grid s') = length (grid s)" using a by (simp add: opened_def)
  have k1: "countKind Close (grid s') \<le> countKind Close (grid s)" by (rule opened_close_le[OF a])
  have k2: "countKind Close (grid s'') \<le> countKind Close (grid s')" by (rule opened_close_le[OF b])
  have r1: "remainingClearCells s' = remainingClearCells s
            - (int (countKind Close (grid s)) - int (countKind Close (grid s')))"
    and r2: "remainingClearCells s'' = remainingClearCells s'
            - (int (countKind Close (grid s')) - int (countKind Close (grid s'')))"
    and w1: "winCalls s' = winCalls s + wonBetween (remainingClearCells s) (remainingClearCells s')"
    and w2: "winCalls s'' = winCalls s' + wonBetween (remainingClearCells s') (remainingClearCells s'')"
    using a b by (simp_all add: opened_def)
  have le1: "remainingClearCells s' \<le> remainingClearCells s" using r1 k1 by simp
  have le2: "remainingClearCells s'' \<le> remainingClearCells s'" using r2 k2 by simp
  have cells: "grid s'' ! i = grid s ! i \<or> (kind (grid s ! i) = Close \<and> kind (grid s'' ! i) = Open)"
    if "i < length (grid s)" for i
    using opened_cells[OF a that] opened_cells[OF b, of i] that l by auto
  show ?thesis
    unfolding opened_def
  proof (intro conjI allI impI)
    show "dimension s'' = dimension s" using a b by (simp add: opened_def)
    show "length (grid s'') = length (grid s)" using a b by (simp add: opened_def)
    show "remainingClearCells s'' = remainingClearCells s
            - (int (countKind Close (grid s)) - int (countKind Close (grid s'')))"
      using r1 r2 by simp
    show "winCalls s'' = winCalls s + wonBetween (remainingClearCells s) (remainingClearCells s'')"
      using w1 w2 wonBetween_trans[OF le2 le1] by simp
  next
    fix i assume "i < length (grid s)"
    then show "grid s'' ! i = grid s ! i \<or> (kind (grid s ! i) = Close \<and> kind (grid s'' ! i) = Open)"
      by (rule cells)
  qed
qed

lemma openCell_run:
  "dimension s = d \<Longrightarrow> length (grid s) = d * d \<Longrightarrow> \<not> isOutsideField d pos \<Longrightarrow>
   kind (grid s ! idx d pos) = Close \<Longrightarrow> countKind Close (grid s) \<le> k \<Longrightarrow>
   \<exists>s'. openCell k s pos = Some s' \<and> opened s s'
       \<and> countKind Close (grid s') < countKind Close (grid s)"
proof (induction k arbitrary: s pos)
  case 0
  have "idx d pos < length (grid s)" using idx_less[OF "0.prems"(3)] "0.prems"(2) by simp
  then have "grid s ! idx d pos \<in> set (grid s)" by simp
  with "0.prems"(4) have "filter (\<lambda>c. kind c = Close) (grid s) \<noteq> []"
    by (auto simp: filter_empty_conv)
  with "0.prems"(5) show ?case by (simp add: countKind_def)
next
  case (Suc k)
  note dim = Suc.prems(1) and len = Suc.prems(2) and inp = Suc.prems(3) and cl = Suc.prems(4)
  have ip: "idx d pos < length (grid s)" using idx_less[OF inp] len by simp
  define nbs where "nbs = neighbors d pos"
  define s1 where "s1 = (if (case getState d (grid s) pos of None \<Rightarrow> False | Some c \<Rightarrow> flagged c)
                then s\<lparr>numRemainingFlags := numRemainingFlags s + 1\<rparr> else s)"
  define s2 where "s2 = s1\<lparr>grid := setState d (grid s1) pos newOpen\<rparr>"
  define f where "f = (\<lambda>neighbor s3. if isEmpty d (grid s3) neighbor
                             then openCell k s3 neighbor else Some s3)"
  define r where "r = (if length (filter (isMine d (grid s2)) nbs) = 0 then
                 fold (\<lambda>neighbor acc. case acc of None \<Rightarrow> None | Some s3 \<Rightarrow> f neighbor s3)
                   nbs (Some s2)
               else Some s2)"
  have unf: "openCell (Suc k) s pos =
     (case r of
           None \<Rightarrow> None
         | Some s4 \<Rightarrow>
             (let s5 = s4\<lparr>remainingClearCells := remainingClearCells s4 - 1\<rparr>
              in Some (if remainingClearCells s5 = 0 then win s5 else s5)))"
    unfolding r_def f_def s2_def s1_def nbs_def openCell.simps Let_def dim by (rule refl)
  have g1: "grid s1 = grid s" and d1: "dimension s1 = d"
    and r1: "remainingClearCells s1 = remainingClearCells s" and w1: "winCalls s1 = winCalls s"
    by (simp_all add: s1_def dim)
  have g2: "grid s2 = (grid s)[idx d pos := newOpen]"
    by (simp add: s2_def g1 setState_field[OF len inp])
  have d2: "dimension s2 = d" and r2: "remainingClearCells s2 = remainingClearCells s"
    and w2: "winCalls s2 = winCalls s"
    by (simp_all add: s2_def d1 r1 w1)
  have l2: "length (grid s2) = d * d" by (simp add: g2 len)
  have k2: "Suc (countKind Close (grid s2)) = countKind Close (grid s)"
    using countKind_update[OF ip, of Close newOpen] cl by (simp add: g2 newOpen_def)
  define I where "I = (\<lambda>u::game. dimension u = d \<and> length (grid u) = d * d
                         \<and> countKind Close (grid u) \<le> k)"
  have I2: "I s2" using d2 l2 k2 Suc.prems(5) by (simp add: I_def)
  have "\<exists>s4. r = Some s4 \<and> I s4 \<and> opened s2 s4"
  proof (cases "length (filter (isMine d (grid s2)) nbs) = 0")
    case False
    then show ?thesis using I2 by (simp add: r_def opened_refl)
  next
    case True
    have "\<exists>b. fold (\<lambda>x acc. case acc of None \<Rightarrow> None | Some u \<Rightarrow> f x u) nbs (Some s2) = Some b
             \<and> I b \<and> opened s2 b \<and> (\<forall>x\<in>set nbs. True)"
    proof (rule fold_opt_run[where T = "\<lambda>x u. True"])
      show "I s2" by (rule I2)
    next
      fix nb u assume nb: "nb \<in> set nbs" and Iu: "I u"
      from Iu have du: "dimension u = d" and lu: "length (grid u) = d * d"
        and ku: "countKind Close (grid u) \<le> k" by (auto simp: I_def)
      have nf: "\<not> isOutsideField d nb" using nb neighbors_field by (simp add: nbs_def)
      show "\<exists>v. f nb u = Some v \<and> I v \<and> opened u v \<and> True"
      proof (cases "isEmpty d (grid u) nb")
        case False
        then show ?thesis using Iu by (simp add: f_def opened_refl)
      next
        case True
        then have "kind (grid u ! idx d nb) = Close" by (simp add: isEmpty_field[OF lu])
        from Suc.IH[OF du lu nf this ku] obtain v where
          v: "openCell k u nb = Some v" "opened u v"
          "countKind Close (grid v) < countKind Close (grid u)" by blast
        have "I v" using v(2,3) Iu by (simp add: I_def opened_def)
        then show ?thesis using v(1,2) True by (simp add: f_def)
      qed
    next
      fix u show "opened u u" by (rule opened_refl)
    next
      fix u v w assume "opened u v" "opened v w"
      then show "opened u w" by (rule opened_trans)
    qed simp
    then show ?thesis using True by (auto simp: r_def)
  qed
  then obtain s4 where s4: "r = Some s4" "I s4" "opened s2 s4" by blast
  define s5 where "s5 = s4\<lparr>remainingClearCells := remainingClearCells s4 - 1\<rparr>"
  define s' where "s' = (if remainingClearCells s5 = 0 then win s5 else s5)"
  have res: "openCell (Suc k) s pos = Some s'"
    unfolding unf s4(1) s'_def s5_def by (simp add: Let_def)
  have gs': "grid s' = grid s4" and ds': "dimension s' = dimension s4"
    and rs': "remainingClearCells s' = remainingClearCells s4 - 1"
    and ws': "winCalls s' = winCalls s4 + (if remainingClearCells s4 - 1 = 0 then 1 else 0)"
    by (simp_all add: s'_def s5_def win_def)
  have k4: "countKind Close (grid s4) \<le> countKind Close (grid s2)"
    by (rule opened_close_le[OF s4(3)])
  have r4: "remainingClearCells s4 = remainingClearCells s
            - (int (countKind Close (grid s2)) - int (countKind Close (grid s4)))"
    and w4: "winCalls s4 = winCalls s + wonBetween (remainingClearCells s) (remainingClearCells s4)"
    using s4(3) r2 w2 by (simp_all add: opened_def)
  have le4: "remainingClearCells s4 \<le> remainingClearCells s" using r4 k4 by simp
  have "opened s s'"
    unfolding opened_def gs' ds' rs' ws'
  proof (intro conjI allI impI)
    show "dimension s4 = dimension s" using s4(2) dim by (simp add: I_def)
    show "length (grid s4) = length (grid s)" using s4(2) len by (simp add: I_def)
    show "remainingClearCells s4 - 1 = remainingClearCells s
            - (int (countKind Close (grid s)) - int (countKind Close (grid s4)))"
      using r4 k2 by simp
    show "winCalls s4 + (if remainingClearCells s4 - 1 = 0 then 1 else 0)
            = winCalls s + wonBetween (remainingClearCells s) (remainingClearCells s4 - 1)"
      using w4 wonBetween_last[OF le4] by simp
  next
    fix i assume i: "i < length (grid s)"
    then have i2: "i < length (grid s2)" by (simp add: g2)
    show "grid s4 ! i = grid s ! i \<or> (kind (grid s ! i) = Close \<and> kind (grid s4 ! i) = Open)"
    proof (cases "i = idx d pos")
      case True
      have "kind (grid s2 ! i) = Open" using True ip by (simp add: g2 newOpen_def)
      with opened_cells[OF s4(3) i2] have "kind (grid s4 ! i) = Open" by auto
      then show ?thesis using cl True by simp
    next
      case False
      then have "grid s2 ! i = grid s ! i" by (simp add: g2)
      with opened_cells[OF s4(3) i2] show ?thesis by auto
    qed
  qed
  moreover have "countKind Close (grid s') < countKind Close (grid s)"
    using k4 k2 by (simp add: gs')
  ultimately show ?case using res by blast
qed

subsection \<open>Runs of the example game\<close>

lemma poolGame_start:
  "generateMines 0 ((newGame 4 4)\<lparr>minables := buildMinables (dimension (newGame 4 4)) (Vec2 3 3)\<rparr>) rs
     = Inr (poolGame, rs)"
  by (simp add: poolGame_def newGame_def initGame_def)

lemma candidate_run: "acceptMine poolGame [4] = Inr (Vec2 0 1, candidateGame, [])"
  by code_simp

lemma firstMine_run: "assignGroupId candidateGame (Vec2 0 1) = Inr firstMineGame"
  by code_simp

lemma interior_run: "acceptMine poolGame [5] = Inr (Vec2 1 1, interiorGame, [])"
  by code_simp

lemma interior_assign: "assignGroupId interiorGame (Vec2 1 1) = Inr interiorGame"
  by code_simp

lemma countKind_le_length: "countKind k g \<le> length g"
  by (simp add: countKind_def)

lemma openCell_total:
  assumes "length (grid s) = dimension s * dimension s"
    and "isEmpty (dimension s) (grid s) pos"
  shows "openCell (Suc (length (grid s))) s pos \<noteq> None"
proof -
  from assms have "\<not> isOutsideField (dimension s) pos"
    "kind (grid s ! idx (dimension s) pos) = Close"
    by (simp_all add: isEmpty_field)
  from openCell_run[OF refl assms(1) this, of "Suc (length (grid s))"]
    countKind_le_length[of Close "grid s"]
  show ?thesis by auto
qed

lemma openCells_run:
  "dimension s = d \<Longrightarrow> length (grid s) = d * d \<Longrightarrow> openCells s ps = Some s' \<Longrightarrow>
   opened s s' \<and> (ps \<noteq> [] \<longrightarrow> countKind Close (grid s') < countKind Close (grid s))"
proof (induction ps arbitrary: s)
  case Nil
  then show ?case by (simp add: opened_refl)
next
  case (Cons p ps)
  from Cons.prems(3) have e: "isEmpty (dimension s) (grid s) p"
    by (auto split: if_splits)
  then have pf: "\<not> isOutsideField d p" and pc: "kind (grid s ! idx d p) = Close"
    using Cons.prems(1,2) by (simp_all add: isEmpty_field)
  from openCell_run[OF Cons.prems(1,2) pf pc, of "Suc (length (grid s))"]
    countKind_le_length[of Close "grid s"]
  obtain s1 where s1: "openCell (Suc (length (grid s))) s p = Some s1" "opened s s1"
    "countKind Close (grid s1) < countKind Close (grid s)" by auto
  have rest: "openCells s1 ps = Some s'" using Cons.prems(3) e s1(1) by simp
  have d1: "dimension s1 = d" and l1: "length (grid s1) = d * d"
    using s1(2) Cons.prems(1,2) by (simp_all add: opened_def)
  from Cons.IH[OF d1 l1 rest] have o: "opened s1 s'"
    and k: "countKind Close (grid s') \<le> countKind Close (grid s1)"
    using opened_close_le by auto
  show ?case using opened_trans[OF s1(2) o] k s1(3) by simp
qed

lemma clicked_run: "clickCell (newGame 4 4) (Vec2 3 3) False [4, 4, 2, 3] = Inr (clickedGame, [])"
  by code_simp

lemma won_run:
  "openCells islandGame [Vec2 3 3, Vec2 0 0, Vec2 1 0, Vec2 3 0, Vec2 3 1] = Some wonGame"
  by code_simp

lemma island_pocket:
  "reach8 d g p q \<Longrightarrow> d = 4 \<Longrightarrow> g = grid islandGame \<Longrightarrow> p = Vec2 0 0 \<Longrightarrow>
   q = Vec2 0 0 \<or> q = Vec2 1 0"
proof (induction rule: reach8.induct)
  case (here d g p)
  then show ?case by simp
next
  case (step d g p q r)
  have n0: "neighbors 4 (Vec2 0 0) = [Vec2 1 0, Vec2 1 1, Vec2 0 1]" by code_simp
  have n1: "neighbors 4 (Vec2 1 0) = [Vec2 2 0, Vec2 2 1, Vec2 1 1, Vec2 0 1, Vec2 0 0]"
    by code_simp
  have m: "\<not> nonMine 4 (grid islandGame) (Vec2 1 1)" "\<not> nonMine 4 (grid islandGame) (Vec2 0 1)"
    "\<not> nonMine 4 (grid islandGame) (Vec2 2 0)" "\<not> nonMine 4 (grid islandGame) (Vec2 2 1)"
    by code_simp+
  from step.IH[OF step.prems] have "q = Vec2 0 0 \<or> q = Vec2 1 0" .
  then show ?case
  proof
    assume "q = Vec2 0 0"
    with step.hyps(2,3) step.prems n0 m show ?thesis by auto
  next
    assume "q = Vec2 1 0"
    with step.hyps(2,3) step.prems n1 m show ?thesis by auto
  qed
qed

section \<open>The claims\<close>

text \<open>
  Claim C1 (single empty component) fails on the code. The run below is a 4 x 4 game
  with 4 mines and the first click on (3, 3). The fourth mine, on (2, 1), closes the
  wall (0, 1), (1, 1), (2, 1), (2, 0) around the two cells (0, 0) and (1, 0):
  \<open>willCreateIsland\<close> accepts it, because the north and west neighbours share id 0 but
  the corner cell (1, 0) between them is empty, and the corner check only rejects when
  that cell is a mine of the same group. No cell is surrounded, so \<open>isSurrounded\<close> does
  not reject it either. After \<open>populateMines\<close> the cells (0, 0) and (3, 3) are not mines
  and no path of cells that are not mines joins them.
\<close>

theorem populateMines_leaves_island:
  "populateMines (newGame 4 4) (Vec2 3 3) [4, 4, 2, 3] = Inr (islandGame, [])
   \<and> nonMine 4 (grid islandGame) (Vec2 0 0)
   \<and> nonMine 4 (grid islandGame) (Vec2 3 3)
   \<and> \<not> reach8 4 (grid islandGame) (Vec2 0 0) (Vec2 3 3)"
proof -
  have "nonMine 4 (grid islandGame) (Vec2 0 0)" "nonMine 4 (grid islandGame) (Vec2 3 3)"
    by code_simp+
  moreover have "\<not> reach8 4 (grid islandGame) (Vec2 0 0) (Vec2 3 3)"
    using island_pocket[of 4 "grid islandGame" "Vec2 0 0" "Vec2 3 3"] by auto
  ultimately show ?thesis using island_run by blast
qed

text \<open>
  Claim C2 (no full surround). After a run of \<open>populateMines\<close> that returns, on a board
  that was all \<open>Close\<close>, every cell of the field that is not a mine has a neighbour in
  the field that is not a mine. The board must not be the single cell of dimension 1,
  which has no neighbour at all; the program's dimensions are 4 to 20.
\<close>

theorem populateMines_no_full_surround:
  assumes "allClosed s0" and "dimension s0 \<noteq> 1"
    and "populateMines s0 clickPos rs = Inr (s, rs')"
  shows "\<forall>p. \<not> isOutsideField (dimension s0) p \<and> \<not> isMine (dimension s0) (grid s) p \<longrightarrow>
           (\<exists>q\<in>set (neighbors (dimension s0) p). \<not> isMine (dimension s0) (grid s) q)"
proof -
  from populateMines_grown[OF assms(1,3)] obtain s1 where
    g: "grown (dimension s0) clickPos (totalMines s0)
          (s0\<lparr>minables := buildMinables (dimension s0) clickPos\<rparr>) s1"
    and s: "s = s1\<lparr>stopTimer := False\<rparr>" by blast
  have "noSurround (dimension s0) (grid s)"
    using g allClosed_noSurround[OF assms(1,2)] by (simp add: grown_def s)
  then show ?thesis
    by (auto simp: noSurround_def isSurrounded_def list_all_iff)
qed

theorem populateMines_no_full_surround_witness:
  "allClosed (newGame 4 4) \<and> dimension (newGame 4 4) \<noteq> 1
   \<and> populateMines (newGame 4 4) (Vec2 3 3) [4, 4, 2, 3] = Inr (islandGame, [])
   \<and> \<not> isOutsideField 4 (Vec2 0 0) \<and> \<not> isMine 4 (grid islandGame) (Vec2 0 0)
   \<and> (\<exists>q\<in>set (neighbors 4 (Vec2 0 0)). \<not> isMine 4 (grid islandGame) q)"
proof -
  have d: "dimension (newGame 4 4) = 4" by (simp add: newGame_def initGame_def)
  have a: "\<not> isOutsideField 4 (Vec2 0 0)" by (simp add: isOutsideField_def)
  have b: "\<not> isMine 4 (grid islandGame) (Vec2 0 0)" by code_simp
  from populateMines_no_full_surround[OF newGame_allClosed _ island_run] d a b
  have "\<exists>q\<in>set (neighbors 4 (Vec2 0 0)). \<not> isMine 4 (grid islandGame) q" by simp
  with newGame_allClosed[of 4 4] island_run d a b show ?thesis by simp
qed

text \<open>
  Claim C3 (mine count). A run of \<open>populateMines\<close> that returns, on a board of
  \<open>d * d\<close> cells that was all \<open>Close\<close>, leaves exactly \<open>totalMines\<close> cells \<open>Mine\<close>,
  \<open>d * d - totalMines\<close> cells \<open>Close\<close> and no cell \<open>Open\<close>.
\<close>

theorem populateMines_mine_count:
  assumes "allClosed s0" and "populateMines s0 clickPos rs = Inr (s, rs')"
  shows "length (grid s) = dimension s0 * dimension s0
       \<and> countKind Mine (grid s) = totalMines s0
       \<and> countKind Close (grid s) = dimension s0 * dimension s0 - totalMines s0
       \<and> countKind Open (grid s) = 0
       \<and> totalMines s0 \<le> dimension s0 * dimension s0"
proof -
  from populateMines_grown[OF assms] obtain s1 where
    g: "grown (dimension s0) clickPos (totalMines s0)
          (s0\<lparr>minables := buildMinables (dimension s0) clickPos\<rparr>) s1"
    and s: "s = s1\<lparr>stopTimer := False\<rparr>" by blast
  from g allClosed_counts[OF assms(1)]
  have "length (grid s1) = dimension s0 * dimension s0"
    "countKind Mine (grid s1) = totalMines s0"
    "countKind Close (grid s1) + totalMines s0 = dimension s0 * dimension s0"
    "countKind Open (grid s1) = 0"
    by (simp_all add: grown_def poolOk_def)
  then show ?thesis unfolding s by simp
qed

theorem populateMines_mine_count_witness:
  "allClosed (newGame 4 4)
   \<and> populateMines (newGame 4 4) (Vec2 3 3) [4, 4, 2, 3] = Inr (islandGame, [])
   \<and> countKind Mine (grid islandGame) = 4 \<and> countKind Close (grid islandGame) = 12
   \<and> countKind Open (grid islandGame) = 0"
proof -
  have t: "totalMines (newGame 4 4) = 4" "dimension (newGame 4 4) = 4"
    by (simp_all add: newGame_def initGame_def)
  from populateMines_mine_count[OF newGame_allClosed island_run] t
  have "countKind Mine (grid islandGame) = 4 \<and> countKind Close (grid islandGame) = 12
   \<and> countKind Open (grid islandGame) = 0" by simp
  with newGame_allClosed[of 4 4] island_run show ?thesis by blast
qed

text \<open>
  Claim C4 (safe zone). After a run of \<open>populateMines(clickPos)\<close> that returns, on a
  board that was all \<open>Close\<close>, no mine of the field lies within Chebyshev distance 1 of
  \<open>clickPos\<close>.
\<close>

theorem populateMines_safe_zone:
  assumes "allClosed s0" and "populateMines s0 clickPos rs = Inr (s, rs')"
  shows "\<forall>p. \<not> isOutsideField (dimension s0) p \<and> isMine (dimension s0) (grid s) p \<longrightarrow>
           \<not> (\<bar>vx p - vx clickPos\<bar> \<le> 1 \<and> \<bar>vy p - vy clickPos\<bar> \<le> 1)"
proof -
  from populateMines_grown[OF assms] obtain s1 where
    g: "grown (dimension s0) clickPos (totalMines s0)
          (s0\<lparr>minables := buildMinables (dimension s0) clickPos\<rparr>) s1"
    and s: "s = s1\<lparr>stopTimer := False\<rparr>" by blast
  have sz: "safeZone (dimension s0) clickPos (grid s)"
    using g allClosed_safeZone[OF assms(1)] by (simp add: grown_def s)
  have "adjacentTo clickPos p = (\<bar>vx p - vx clickPos\<bar> \<le> 1 \<and> \<bar>vy p - vy clickPos\<bar> \<le> 1)" for p
    by (auto simp: adjacentTo_def subtract_def Let_def)
  with sz show ?thesis by (simp add: safeZone_def)
qed

theorem populateMines_safe_zone_witness:
  "allClosed (newGame 4 4)
   \<and> populateMines (newGame 4 4) (Vec2 3 3) [4, 4, 2, 3] = Inr (islandGame, [])
   \<and> \<not> isOutsideField 4 (Vec2 2 1) \<and> isMine 4 (grid islandGame) (Vec2 2 1)
   \<and> \<not> (\<bar>vx (Vec2 2 1) - vx (Vec2 3 3)\<bar> \<le> 1 \<and> \<bar>vy (Vec2 2 1) - vy (Vec2 3 3)\<bar> \<le> 1)"
proof -
  have d: "dimension (newGame 4 4) = 4" by (simp add: newGame_def initGame_def)
  have a: "\<not> isOutsideField 4 (Vec2 2 1)" by (simp add: isOutsideField_def)
  have b: "isMine 4 (grid islandGame) (Vec2 2 1)" by code_simp
  from populateMines_safe_zone[OF newGame_allClosed island_run]
  have "\<forall>p. \<not> isOutsideField 4 p \<and> isMine 4 (grid islandGame) p \<longrightarrow>
           \<not> (\<bar>vx p - vx (Vec2 3 3)\<bar> \<le> 1 \<and> \<bar>vy p - vy (Vec2 3 3)\<bar> \<le> 1)"
    by (simp only: d)
  with a b
  have "\<not> (\<bar>vx (Vec2 2 1) - vx (Vec2 3 3)\<bar> \<le> 1 \<and> \<bar>vy (Vec2 2 1) - vy (Vec2 3 3)\<bar> \<le> 1)"
    by blast
  with newGame_allClosed[of 4 4] island_run a b show ?thesis by blast
qed

text \<open>
  Claim C5 (cluster closure). Take a board that was all \<open>Close\<close>, and let \<open>r\<close> be the
  result of any number \<open>k\<close> of calls of \<open>generateMine\<close> in the loop of \<open>populateMines\<close>,
  or the result of \<open>populateMines\<close> itself, for any draws \<open>rs\<close>. Then the flood of
  \<open>updateId\<close> has returned at every call within its depth bound and no property of
  \<open>undefined\<close> was read: \<open>r\<close> is neither \<open>OutOfFuel\<close> nor \<open>TypeError\<close>, so the only
  failures are those of the draws. And in the state that \<open>r\<close> returns, two orthogonally
  adjacent mines of the field carry the same group id.

  The example is a run where the flood has to recolour: after two mines both carry the
  id 1, and the third mine, on the boundary, turns the three of them to 0.
\<close>

theorem cluster_closure_after_each_mine:
  assumes "allClosed s0"
    and "r = generateMines k (s0\<lparr>minables := buildMinables (dimension s0) clickPos\<rparr>) rs
         \<or> r = populateMines s0 clickPos rs"
  shows "r \<noteq> Inl OutOfFuel \<and> r \<noteq> Inl TypeError
         \<and> (\<forall>s rs'. r = Inr (s, rs') \<longrightarrow>
              (\<forall>p dir. dir \<in> set ORTHO_DIRS
                 \<and> \<not> isOutsideField (dimension s0) p \<and> \<not> isOutsideField (dimension s0) (add p dir)
                 \<and> isMine (dimension s0) (grid s) p \<and> isMine (dimension s0) (grid s) (add p dir)
                 \<longrightarrow> getId (dimension s0) (grid s) p = getId (dimension s0) (grid s) (add p dir)))"
proof -
  note pool = allClosed_poolOk[OF assms(1), of clickPos]
  have err: "e = NoMinableSpaces \<or> e = DrawOutOfRange" if "r = Inl e" for e
    using assms(2)
  proof
    assume "r = generateMines k (s0\<lparr>minables := buildMinables (dimension s0) clickPos\<rparr>) rs"
    with that have "generateMines k (s0\<lparr>minables := buildMinables (dimension s0) clickPos\<rparr>) rs
      = Inl e" by simp
    from generateMines_errors[OF pool this] show ?thesis .
  next
    assume "r = populateMines s0 clickPos rs"
    with that have "populateMines s0 clickPos rs = Inl e" by simp
    from populateMines_errors[OF assms(1) this] show ?thesis .
  qed
  have cl: "clusterClosed (dimension s0) (grid s)" if "r = Inr (s, rs')" for s rs'
    using assms(2)
  proof
    assume "r = generateMines k (s0\<lparr>minables := buildMinables (dimension s0) clickPos\<rparr>) rs"
    with that have "generateMines k (s0\<lparr>minables := buildMinables (dimension s0) clickPos\<rparr>) rs
           = Inr (s, rs')" by simp
    from generateMines_grown[OF pool this]
    show ?thesis using allClosed_clusterClosed[OF assms(1)] by (simp add: grown_def)
  next
    assume "r = populateMines s0 clickPos rs"
    with that have "populateMines s0 clickPos rs = Inr (s, rs')" by simp
    from populateMines_grown[OF assms(1) this] obtain s1 where
      g: "grown (dimension s0) clickPos (totalMines s0)
          (s0\<lparr>minables := buildMinables (dimension s0) clickPos\<rparr>) s1"
      and s: "s = s1\<lparr>stopTimer := False\<rparr>" by blast
    show ?thesis using g allClosed_clusterClosed[OF assms(1)] by (simp add: grown_def s)
  qed
  have "r \<noteq> Inl OutOfFuel" using err[of OutOfFuel] by auto
  moreover have "r \<noteq> Inl TypeError" using err[of TypeError] by auto
  moreover have "\<forall>s rs'. r = Inr (s, rs') \<longrightarrow>
              (\<forall>p dir. dir \<in> set ORTHO_DIRS
                 \<and> \<not> isOutsideField (dimension s0) p \<and> \<not> isOutsideField (dimension s0) (add p dir)
                 \<and> isMine (dimension s0) (grid s) p \<and> isMine (dimension s0) (grid s) (add p dir)
                 \<longrightarrow> getId (dimension s0) (grid s) p = getId (dimension s0) (grid s) (add p dir))"
    using cl unfolding clusterClosed_def by blast
  ultimately show ?thesis by blast
qed

theorem cluster_closure_after_each_mine_witness:
  "allClosed (newGame 4 4)
   \<and> generateMines 2 ((newGame 4 4)\<lparr>minables := buildMinables 4 (Vec2 3 3)\<rparr>) [5, 5]
       = Inr (pairGame, [])
   \<and> getId 4 (grid pairGame) (Vec2 1 1) = Num 1
   \<and> populateMines (newGame 4 4) (Vec2 3 3) [5, 5, 1, 5] = Inr (joinedGame, [])
   \<and> populateMines (newGame 4 4) (Vec2 3 3) [5, 5, 1, 5] \<noteq> Inl OutOfFuel
   \<and> getId 4 (grid joinedGame) (Vec2 1 1) = Num 0
   \<and> EAST \<in> set ORTHO_DIRS
   \<and> isMine 4 (grid joinedGame) (Vec2 1 1) \<and> isMine 4 (grid joinedGame) (add (Vec2 1 1) EAST)
   \<and> getId 4 (grid joinedGame) (Vec2 1 1) = getId 4 (grid joinedGame) (add (Vec2 1 1) EAST)"
proof -
  have d: "dimension (newGame 4 4) = 4" by (simp add: newGame_def initGame_def)
  have a: "EAST \<in> set ORTHO_DIRS" by (simp add: ORTHO_DIRS_def)
  have b: "\<not> isOutsideField 4 (Vec2 1 1)" "\<not> isOutsideField 4 (add (Vec2 1 1) EAST)"
    by (simp_all add: isOutsideField_def add_def EAST_def)
  have c: "isMine 4 (grid joinedGame) (Vec2 1 1)" "isMine 4 (grid joinedGame) (add (Vec2 1 1) EAST)"
    by code_simp+
  have i: "getId 4 (grid pairGame) (Vec2 1 1) = Num 1" "getId 4 (grid joinedGame) (Vec2 1 1) = Num 0"
    by code_simp+
  note t = cluster_closure_after_each_mine[where ?s0.0 = "newGame 4 4" and clickPos = "Vec2 3 3"
      and rs = "[5, 5, 1, 5]" and r = "populateMines (newGame 4 4) (Vec2 3 3) [5, 5, 1, 5]",
      OF newGame_allClosed disjI2[OF refl]]
  from t have nf: "populateMines (newGame 4 4) (Vec2 3 3) [5, 5, 1, 5] \<noteq> Inl OutOfFuel"
    by blast
  from t joined_run d a b c
  have e: "getId 4 (grid joinedGame) (Vec2 1 1) = getId 4 (grid joinedGame) (add (Vec2 1 1) EAST)"
    by simp
  from newGame_allClosed[of 4 4] pair_run joined_run nf i a c e show ?thesis by blast
qed

text \<open>
  Claim C6, as the code has it. During \<open>populateMines\<close> on a board that was all \<open>Close\<close>,
  a mine accepted with no mine orthogonally next to it never gets the fresh id
  \<open>currentId\<close>: when an orthogonal neighbour is outside the field its id is 0, the value
  \<open>getId\<close> gives outside the field; when all four are in the field its id stays
  \<open>null\<close> and \<open>currentId\<close> is not advanced.
\<close>

theorem lone_mine_gets_no_fresh_id:
  assumes "allClosed s0" and "1 \<le> currentId s0"
    and "generateMines k (s0\<lparr>minables := buildMinables (dimension s0) clickPos\<rparr>) rs
           = Inr (s, rs1)"
    and "acceptMine s rs1 = Inr (pos, s1, rs2)"
    and "assignGroupId s1 pos = Inr s2"
    and "\<forall>dir\<in>set ORTHO_DIRS. \<not> isOutsideField (dimension s0) (add pos dir) \<longrightarrow>
           \<not> isMine (dimension s0) (grid s1) (add pos dir)"
  shows "getId (dimension s0) (grid s2) pos
           = (if \<exists>dir\<in>set ORTHO_DIRS. isOutsideField (dimension s0) (add pos dir)
              then Num 0 else Null)
       \<and> getId (dimension s0) (grid s2) pos \<noteq> Num (currentId s1)
       \<and> ((\<forall>dir\<in>set ORTHO_DIRS. \<not> isOutsideField (dimension s0) (add pos dir))
            \<longrightarrow> currentId s2 = currentId s1)"
proof -
  have c0: "0 \<le> currentId s0" using assms(2) by simp
  note lm = lone_mine[OF assms(1) c0 assms(3,4,6)]
  have c1: "1 \<le> currentId s1"
  proof -
    from generateMines_grown[OF allClosed_poolOk[OF assms(1)] assms(3)]
    have ok: "poolOk (dimension s0) clickPos s" and "currentId s0 \<le> currentId s"
      by (auto simp: grown_def)
    moreover from acceptMine_result[OF ok assms(4)] have "currentId s1 = currentId s" by auto
    ultimately show ?thesis using assms(2) by simp
  qed
  show ?thesis
  proof (cases "\<exists>dir\<in>set ORTHO_DIRS. isOutsideField (dimension s0) (add pos dir)")
    case True
    from lm(1)[OF True] assms(5) have "getId (dimension s0) (grid s2) pos = Num 0" by auto
    then show ?thesis using True c1 by auto
  next
    case False
    from lm(2)[OF False] assms(5) have "s2 = s1" "getId (dimension s0) (grid s1) pos = Null"
      by auto
    then show ?thesis using False by auto
  qed
qed

theorem lone_mine_gets_no_fresh_id_witness:
  "allClosed (newGame 4 4) \<and> 1 \<le> currentId (newGame 4 4)
   \<and> acceptMine poolGame [5] = Inr (Vec2 1 1, interiorGame, [])
   \<and> assignGroupId interiorGame (Vec2 1 1) = Inr interiorGame
   \<and> getId 4 (grid interiorGame) (Vec2 1 1) = Null
   \<and> currentId interiorGame = 1"
proof -
  have d: "dimension (newGame 4 4) = 4" and c: "currentId (newGame 4 4) = 1"
    by (simp_all add: newGame_def initGame_def)
  have lone: "\<forall>dir\<in>set ORTHO_DIRS. \<not> isOutsideField (dimension (newGame 4 4)) (add (Vec2 1 1) dir) \<longrightarrow>
           \<not> isMine (dimension (newGame 4 4)) (grid interiorGame) (add (Vec2 1 1) dir)"
    unfolding d ORTHO_DIRS_def by (simp, code_simp)
  have inner: "\<not> (\<exists>dir\<in>set ORTHO_DIRS. isOutsideField 4 (add (Vec2 1 1) dir))"
    unfolding ORTHO_DIRS_def by (simp, code_simp)
  have c1: "1 \<le> currentId (newGame 4 4)" using c by simp
  from lone_mine_gets_no_fresh_id[OF newGame_allClosed c1 poolGame_start interior_run
      interior_assign lone] inner
  have "getId 4 (grid interiorGame) (Vec2 1 1) = Null" unfolding d by simp
  moreover have "currentId interiorGame = 1" by (simp add: interiorGame_def c)
  ultimately show ?thesis
    using newGame_allClosed[of 4 4] c1 interior_run interior_assign by blast
qed

theorem lone_boundary_mine_has_sentinel_id:
  "countKind Mine (grid poolGame) = 0
   \<and> acceptMine poolGame [4] = Inr (Vec2 0 1, candidateGame, [])
   \<and> assignGroupId candidateGame (Vec2 0 1) = Inr firstMineGame
   \<and> isMine 4 (grid firstMineGame) (Vec2 0 1)
   \<and> getId 4 (grid firstMineGame) (Vec2 0 1) = Num 0
   \<and> getId 4 (grid firstMineGame) (add (Vec2 0 1) WEST) = Num 0"
proof -
  have "countKind Mine (grid poolGame) = 0" by code_simp
  moreover have "isMine 4 (grid firstMineGame) (Vec2 0 1)" by code_simp
  moreover have "getId 4 (grid firstMineGame) (Vec2 0 1) = Num 0" by code_simp
  moreover have "getId 4 (grid firstMineGame) (add (Vec2 0 1) WEST) = Num 0" by code_simp
  ultimately show ?thesis using candidate_run firstMine_run by blast
qed

text \<open>
  Claim C7 (win trigger). On a board produced by \<open>populateMines\<close> for dimension \<open>d\<close> and
  \<open>m\<close> mines, after any sequence of \<open>openCell\<close> calls each made on a closed cell: at most
  \<open>d * d - m\<close> cells are open, \<open>win()\<close> has not been called while fewer are open, and it
  has been called exactly once when that many are open. The statement holds after every
  call of the sequence, since every prefix of the sequence is such a sequence.
\<close>

theorem win_signal_exactly_at_last_cell:
  assumes "populateMines (newGame d m) clickPos rs = Inr (s0, rs')"
    and "openCells s0 ps = Some s"
  shows "countKind Open (grid s) \<le> d * d - m
       \<and> (countKind Open (grid s) < d * d - m \<longrightarrow> winCalls s = 0)
       \<and> (ps \<noteq> [] \<and> countKind Open (grid s) = d * d - m \<longrightarrow> winCalls s = 1)"
proof -
  have dm: "dimension (newGame d m) = d" "totalMines (newGame d m) = m"
    "remainingClearCells (newGame d m) = int (d * d) - int m" "winCalls (newGame d m) = 0"
    by (simp_all add: newGame_def initGame_def)
  from populateMines_grown[OF newGame_allClosed assms(1)] obtain s1 where
    g: "grown d clickPos m ((newGame d m)\<lparr>minables := buildMinables d clickPos\<rparr>) s1"
    and s0: "s0 = s1\<lparr>stopTimer := False\<rparr>" unfolding dm by blast
  note c = allClosed_counts[OF newGame_allClosed[of d m], unfolded dm]
  from g c have d0: "dimension s0 = d" and l0: "length (grid s0) = d * d"
    and m0: "countKind Mine (grid s0) = m" and k0: "countKind Close (grid s0) + m = d * d"
    and r0: "remainingClearCells s0 = int (d * d) - int m" and w0: "winCalls s0 = 0"
    by (simp_all add: grown_def poolOk_def s0 dm)
  from openCells_run[OF d0 l0 assms(2)] have o: "opened s0 s"
    and lt: "ps \<noteq> [] \<longrightarrow> countKind Close (grid s) < countKind Close (grid s0)" by auto
  have ms: "countKind Mine (grid s) = m" using opened_mines[OF o] m0 by simp
  have ls: "length (grid s) = d * d" using o l0 by (simp add: opened_def)
  have tot: "countKind Open (grid s) + countKind Close (grid s) + m = d * d"
    using countKind_total[of "grid s"] ms ls by simp
  have "int (countKind Close (grid s0) + m) = int (d * d)" by (simp only: k0)
  then have k0i: "int (countKind Close (grid s0)) = int (d * d) - int m" by simp
  have "remainingClearCells s = remainingClearCells s0
          - (int (countKind Close (grid s0)) - int (countKind Close (grid s)))"
    using o by (simp add: opened_def)
  then have rs: "remainingClearCells s = int (countKind Close (grid s))"
    using r0 k0i by simp
  have "winCalls s = winCalls s0 + wonBetween (remainingClearCells s0) (remainingClearCells s)"
    using o by (simp add: opened_def)
  then have ws: "winCalls s = wonBetween (int (d * d) - int m) (int (countKind Close (grid s)))"
    using r0 w0 rs by simp
  show ?thesis
  proof (intro conjI impI)
    show "countKind Open (grid s) \<le> d * d - m" using tot by simp
    show "winCalls s = 0" if "countKind Open (grid s) < d * d - m"
    proof -
      have "0 < countKind Close (grid s)" using that tot by arith
      then show ?thesis using ws by (simp add: wonBetween_def)
    qed
    show "winCalls s = 1" if "ps \<noteq> [] \<and> countKind Open (grid s) = d * d - m"
    proof -
      have "countKind Close (grid s) = 0" using that tot by arith
      moreover have "0 < countKind Close (grid s0)" using that lt by simp
      then have "int m < int (d * d)" using k0i by simp
      ultimately show ?thesis using ws by (simp add: wonBetween_def)
    qed
  qed
qed

theorem win_signal_exactly_at_last_cell_witness:
  "populateMines (newGame 4 4) (Vec2 3 3) [4, 4, 2, 3] = Inr (islandGame, [])
   \<and> openCells islandGame [Vec2 3 3, Vec2 0 0, Vec2 1 0, Vec2 3 0, Vec2 3 1] = Some wonGame
   \<and> countKind Open (grid wonGame) = 4 * 4 - 4 \<and> winCalls wonGame = 1"
proof -
  have a: "countKind Open (grid wonGame) = 4 * 4 - 4" by code_simp
  have b: "[Vec2 3 3, Vec2 0 0, Vec2 1 0, Vec2 3 0, Vec2 3 1] \<noteq> []" by simp
  from win_signal_exactly_at_last_cell[OF island_run won_run] a b
  have "winCalls wonGame = 1" by blast
  with island_run won_run a show ?thesis by blast
qed

text \<open>
  Claim C8, as the code has it. \<open>openCell\<close> has no guard of its own: called on an open
  cell it still counts a cell as cleared. The guard is in the click handler: once the
  mines are generated, a click on an open cell, with or without the shift key, calls
  neither \<open>openCell\<close> nor \<open>toggleFlag\<close> and leaves the whole state as it is.
\<close>

theorem click_on_open_cell_is_noop:
  assumes "getState (dimension s) (grid s) pos = Some c" and "kind c = Open"
    and "hasGenMines s"
  shows "clickCell s pos shiftKey rs = Inr (s, rs)"
  using assms by (simp add: clickCell_def)

theorem click_on_open_cell_is_noop_witness:
  "getState (dimension clickedGame) (grid clickedGame) (Vec2 3 3) = Some newOpen
   \<and> kind newOpen = Open \<and> hasGenMines clickedGame
   \<and> clickCell clickedGame (Vec2 3 3) False [] = Inr (clickedGame, [])"
proof -
  have a: "getState (dimension clickedGame) (grid clickedGame) (Vec2 3 3) = Some newOpen"
    by code_simp
  have b: "kind newOpen = Open" by (simp add: newOpen_def)
  have c: "hasGenMines clickedGame" by (simp add: clickedGame_def)
  from click_on_open_cell_is_noop[OF a b c] a b c show ?thesis by blast
qed

theorem openCell_on_open_cell_counts_again:
  "clickCell (newGame 4 4) (Vec2 3 3) False [4, 4, 2, 3] = Inr (clickedGame, [])
   \<and> getState 4 (grid clickedGame) (Vec2 3 3) = Some newOpen
   \<and> remainingClearCells clickedGame = 4
   \<and> openCell (Suc (length (grid clickedGame))) clickedGame (Vec2 3 3)
        = Some (clickedGame\<lparr>remainingClearCells := 3\<rparr>)"
proof -
  have "getState 4 (grid clickedGame) (Vec2 3 3) = Some newOpen" by code_simp
  moreover have "remainingClearCells clickedGame = 4" by (simp add: clickedGame_def)
  moreover have "openCell (Suc (length (grid clickedGame))) clickedGame (Vec2 3 3)
        = Some (clickedGame\<lparr>remainingClearCells := 3\<rparr>)" by code_simp
  ultimately show ?thesis using clicked_run by blast
qed

text \<open>
  Claim C9, as the code has it. With dimension 4 and the first click at (0, 0), the 3 x 3
  block around the click holds only 4 cells of the field, so the pool of \<open>populateMines\<close>
  holds the other 12 of the 16 positions, not 7.
\<close>

theorem pool_at_corner_click:
  "buildMinables 4 (Vec2 0 0) =
     [Vec2 2 0, Vec2 3 0, Vec2 2 1, Vec2 3 1,
      Vec2 0 2, Vec2 1 2, Vec2 2 2, Vec2 3 2,
      Vec2 0 3, Vec2 1 3, Vec2 2 3, Vec2 3 3]
   \<and> length (buildMinables 4 (Vec2 0 0)) = 12"
  by code_simp

theorem pool_at_corner_click_not_seven: "length (buildMinables 4 (Vec2 0 0)) \<noteq> 7"
  by code_simp

text \<open>
  Claim C10 (boundary mines take the id of the outside). During \<open>populateMines\<close> on a
  board that was all \<open>Close\<close>, a mine accepted on a cell with an orthogonal neighbour
  outside the field and no mine orthogonally next to it gets the group id 0, which is
  what \<open>getId\<close> returns for every position outside the field.
\<close>

theorem boundary_mine_gets_id_zero:
  assumes "allClosed s0" and "0 \<le> currentId s0"
    and "generateMines k (s0\<lparr>minables := buildMinables (dimension s0) clickPos\<rparr>) rs
           = Inr (s, rs1)"
    and "acceptMine s rs1 = Inr (pos, s1, rs2)"
    and "assignGroupId s1 pos = Inr s2"
    and "\<exists>dir\<in>set ORTHO_DIRS. isOutsideField (dimension s0) (add pos dir)"
    and "\<forall>dir\<in>set ORTHO_DIRS. \<not> isOutsideField (dimension s0) (add pos dir) \<longrightarrow>
           \<not> isMine (dimension s0) (grid s1) (add pos dir)"
  shows "getId (dimension s0) (grid s2) pos = Num 0
       \<and> (\<forall>q. isOutsideField (dimension s0) q \<longrightarrow>
             getId (dimension s0) (grid s2) q = getId (dimension s0) (grid s2) pos)"
proof -
  from lone_mine(1)[OF assms(1,2,3,4,7,6)] assms(5)
  have "getId (dimension s0) (grid s2) pos = Num 0" by auto
  then show ?thesis by (simp add: getId_outside)
qed

theorem boundary_mine_gets_id_zero_witness:
  "allClosed (newGame 4 4) \<and> 0 \<le> currentId (newGame 4 4)
   \<and> acceptMine poolGame [4] = Inr (Vec2 0 1, candidateGame, [])
   \<and> assignGroupId candidateGame (Vec2 0 1) = Inr firstMineGame
   \<and> isOutsideField 4 (add (Vec2 0 1) WEST)
   \<and> getId 4 (grid firstMineGame) (Vec2 0 1) = Num 0"
proof -
  have d: "dimension (newGame 4 4) = 4" and c: "0 \<le> currentId (newGame 4 4)"
    by (simp_all add: newGame_def initGame_def)
  have lone: "\<forall>dir\<in>set ORTHO_DIRS. \<not> isOutsideField (dimension (newGame 4 4)) (add (Vec2 0 1) dir) \<longrightarrow>
           \<not> isMine (dimension (newGame 4 4)) (grid candidateGame) (add (Vec2 0 1) dir)"
    unfolding d ORTHO_DIRS_def by (simp, code_simp)
  have w: "isOutsideField 4 (add (Vec2 0 1) WEST)" by code_simp
  have out: "\<exists>dir\<in>set ORTHO_DIRS. isOutsideField (dimension (newGame 4 4)) (add (Vec2 0 1) dir)"
    unfolding d using w by (auto simp: ORTHO_DIRS_def)
  from boundary_mine_gets_id_zero[OF newGame_allClosed c poolGame_start candidate_run
      firstMine_run out lone]
  have "getId 4 (grid firstMineGame) (Vec2 0 1) = Num 0" unfolding d by simp
  then show ?thesis
    using newGame_allClosed[of 4 4] c candidate_run firstMine_run w by blast
qed

end
